theory Spec2Isabelle
  imports Complex_Main
begin

section \<open>Values, errors and arrays\<close>

text \<open>
  The program is \<^verbatim>\<open>pp/mdp/mdp.py\<close>: the classes \<^verbatim>\<open>MDP\<close> and \<^verbatim>\<open>GridWorldMDP\<close>.
  Python integers are \<open>int\<close>. Every \<^verbatim>\<open>assert\<close>, \<^verbatim>\<open>raise\<close> and failing index
  of the source is a value \<open>Inl e\<close> of the result type \<open>error + 'a\<close>; the string of
  an \<open>AssertionError\<close> names the assertion that failed.
\<close>

datatype error =
    AssertionError string
  | IndexError
  | ZeroDivisionError
  | BaseException string

definition sbind :: "error + 'a \<Rightarrow> ('a \<Rightarrow> error + 'b) \<Rightarrow> error + 'b" where
  "sbind x f = (case x of Inl e \<Rightarrow> Inl e | Inr v \<Rightarrow> f v)"

text \<open>
  A reward is a numpy \<^verbatim>\<open>float64\<close>: a finite number, one of the two infinities, or NaN.
  Finite values are real numbers here; rounding is outside the model.
  \<open>times_sqrt2\<close> is the element operation of \<^verbatim>\<open>np.multiply(col, np.sqrt(2), out=col)\<close>.
\<close>

datatype np_float = Fin real | PosInf | NegInf | NaN

definition times_sqrt2 :: "np_float \<Rightarrow> np_float" where
  "times_sqrt2 x = (case x of Fin r \<Rightarrow> Fin (r * sqrt 2) | PosInf \<Rightarrow> PosInf
                     | NegInf \<Rightarrow> NegInf | NaN \<Rightarrow> NaN)"

text \<open>
  An index \<open>i\<close> into an axis of length \<open>n\<close>, for Python lists and numpy arrays alike:
  \<open>0 \<le> i < n\<close> is position \<open>i\<close>, \<open>-n \<le> i < 0\<close> counts from the end, anything else
  raises \<^verbatim>\<open>IndexError\<close>.
\<close>

definition py_index :: "nat \<Rightarrow> int \<Rightarrow> error + nat" where
  "py_index n i =
     (if 0 \<le> i \<and> i < int n then Inr (nat i)
      else if - int n \<le> i \<and> i < 0 then Inr (nat (i + int n))
      else Inl IndexError)"

definition list_getitem :: "'a list \<Rightarrow> int \<Rightarrow> error + 'a" where
  "list_getitem xs i = sbind (py_index (length xs) i) (\<lambda>k. Inr (xs ! k))"

definition list_setitem :: "'a list \<Rightarrow> int \<Rightarrow> 'a \<Rightarrow> error + 'a list" where
  "list_setitem xs i v = sbind (py_index (length xs) i) (\<lambda>k. Inr (xs[k := v]))"

text \<open>\<^verbatim>\<open>xs[i].append(v)\<close> on a list of lists.\<close>

definition list_append_at :: "'a list list \<Rightarrow> int \<Rightarrow> 'a \<Rightarrow> error + 'a list list" where
  "list_append_at xs i v = sbind (py_index (length xs) i) (\<lambda>k. Inr (xs[k := xs ! k @ [v]]))"

text \<open>
  A two-dimensional numpy array: its shape and its cells. Every read and write of the
  source goes through \<open>getitem2\<close>, \<open>setitem2\<close> or a column operation, each of which checks
  the index against the shape first, as numpy does.
\<close>

record 'a ndarray =
  nrows :: nat
  ncols :: nat
  cell :: "nat \<Rightarrow> nat \<Rightarrow> 'a"

definition np_full :: "nat \<Rightarrow> nat \<Rightarrow> 'a \<Rightarrow> 'a ndarray" where
  "np_full n k v = \<lparr>nrows = n, ncols = k, cell = (\<lambda>i j. v)\<rparr>"

definition getitem2 :: "'a ndarray \<Rightarrow> int \<Rightarrow> int \<Rightarrow> error + 'a" where
  "getitem2 M i j =
     sbind (py_index (nrows M) i) (\<lambda>i'.
     sbind (py_index (ncols M) j) (\<lambda>j'. Inr (cell M i' j')))"

definition setitem2 :: "'a ndarray \<Rightarrow> int \<Rightarrow> int \<Rightarrow> 'a \<Rightarrow> error + 'a ndarray" where
  "setitem2 M i j v =
     sbind (py_index (nrows M) i) (\<lambda>i'.
     sbind (py_index (ncols M) j) (\<lambda>j'.
       Inr (M\<lparr>cell := (cell M)(i' := (cell M i')(j' := v))\<rparr>)))"

text \<open>\<^verbatim>\<open>M[:, j]\<close> is a view of column \<open>j\<close>; an operation on the view writes into \<open>M\<close>.\<close>

definition col_map :: "'a ndarray \<Rightarrow> int \<Rightarrow> ('a \<Rightarrow> 'a) \<Rightarrow> error + 'a ndarray" where
  "col_map M j f =
     sbind (py_index (ncols M) j) (\<lambda>j'.
       Inr (M\<lparr>cell := (\<lambda>i k. if k = j' then f (cell M i k) else cell M i k)\<rparr>))"

definition col_fill :: "'a ndarray \<Rightarrow> int \<Rightarrow> 'a \<Rightarrow> error + 'a ndarray" where
  "col_fill M j v = col_map M j (\<lambda>x. v)"

text \<open>\<^verbatim>\<open>for x in xs: body\<close> over a state, stopping at the first exception.\<close>

fun for_each :: "'a list \<Rightarrow> ('a \<Rightarrow> 's \<Rightarrow> error + 's) \<Rightarrow> 's \<Rightarrow> error + 's" where
  "for_each [] f st = Inr st"
| "for_each (x # xs) f st = sbind (f x st) (for_each xs f)"

definition xrange :: "int \<Rightarrow> int list" where
  "xrange n = map int [0..<nat n]"

section \<open>The abstract MDP\<close>

text \<open>
  The arguments of \<^verbatim>\<open>MDP.__init__\<close> are dynamically typed: \<open>IntV\<close> is any instance of
  \<^verbatim>\<open>int\<close>, \<open>FunV\<close> any callable. The reward matrix is passed by reference: an address
  into the store of arrays.
\<close>

type_synonym addr = nat
type_synonym heap = "np_float ndarray list"

datatype pyval =
    IntV int
  | FloatV real
  | StrV string
  | NoneV
  | FunV "int \<Rightarrow> int \<Rightarrow> error + int"

definition isinstance_int :: "pyval \<Rightarrow> bool" where
  "isinstance_int v = (case v of IntV n \<Rightarrow> True | _ \<Rightarrow> False)"

definition callable :: "pyval \<Rightarrow> bool" where
  "callable v = (case v of FunV f \<Rightarrow> True | _ \<Rightarrow> False)"

text \<open>\<^verbatim>\<open>rewards.shape == (S, A)\<close>: a pair of array dimensions against two Python values.\<close>

definition shape_eq :: "'a ndarray \<Rightarrow> pyval \<Rightarrow> pyval \<Rightarrow> bool" where
  "shape_eq M s a =
     (case (s, a) of
        (IntV n, IntV k) \<Rightarrow> int (nrows M) = n \<and> int (ncols M) = k
      | _ \<Rightarrow> False)"

record mdp =
  S :: pyval
  A :: pyval
  rewards :: addr
  transition :: pyval

definition MDP_init :: "heap \<Rightarrow> pyval \<Rightarrow> pyval \<Rightarrow> addr \<Rightarrow> pyval \<Rightarrow> error + mdp" where
  "MDP_init h s a r t =
     (if \<not> isinstance_int s then Inl (AssertionError ''isinstance(S, int)'')
      else if \<not> isinstance_int a then Inl (AssertionError ''isinstance(A, int)'')
      else if \<not> shape_eq (h ! r) s a then Inl (AssertionError ''rewards.shape == (S, A)'')
      else if \<not> callable t then Inl (AssertionError ''callable(transition)'')
      else Inr \<lparr>S = s, A = a, rewards = r, transition = t\<rparr>)"

section \<open>The grid world\<close>

subsection \<open>Actions\<close>

definition UP :: int where "UP = 0"
definition DOWN :: int where "DOWN = 1"
definition LEFT :: int where "LEFT = 2"
definition RIGHT :: int where "RIGHT = 3"
definition UP_LEFT :: int where "UP_LEFT = 4"
definition UP_RIGHT :: int where "UP_RIGHT = 5"
definition DOWN_LEFT :: int where "DOWN_LEFT = 6"
definition DOWN_RIGHT :: int where "DOWN_RIGHT = 7"
definition ABSORB :: int where "ABSORB = 8"

text \<open>\<^verbatim>\<open>len(self.Actions)\<close>\<close>

definition num_actions :: int where "num_actions = 9"

definition diagonal_actions :: "int list" where
  "diagonal_actions = [UP_LEFT, UP_RIGHT, DOWN_LEFT, DOWN_RIGHT]"

subsection \<open>Coordinates and the transition helper\<close>

text \<open>
  The three methods below read \<^verbatim>\<open>self.rows\<close>, \<^verbatim>\<open>self.cols\<close> and
  \<^verbatim>\<open>self.disallow_diag\<close> only, so they are defined on every record that has these
  fields: the object under construction and the finished engine.
\<close>

record grid =
  rows :: int
  cols :: int
  disallow_diag :: bool

definition coor_to_state :: "'x grid_scheme \<Rightarrow> int \<Rightarrow> int \<Rightarrow> error + int" where
  "coor_to_state m r c =
     (if \<not> (0 \<le> r \<and> r < rows m) then Inl (AssertionError ''0 <= r < self.rows'')
      else if \<not> (0 \<le> c \<and> c < cols m) then Inl (AssertionError ''0 <= c < self.cols'')
      else Inr (r * cols m + c))"

definition state_to_coor :: "'x grid_scheme \<Rightarrow> int \<Rightarrow> error + int \<times> int" where
  "state_to_coor m s =
     (if \<not> s < rows m * cols m then Inl (AssertionError ''s < self.rows * self.cols'')
      else if cols m = 0 then Inl ZeroDivisionError
      else Inr (s div cols m, s mod cols m))"

text \<open>
  \<^verbatim>\<open>_transition_helper(s, a, alert_illegal=True)\<close>, the only way the source calls it:
  the resulting state and the flag. With \<^verbatim>\<open>alert_illegal=False\<close> the method returns
  the first component alone.
\<close>

definition transition_helper :: "'x grid_scheme \<Rightarrow> int \<Rightarrow> int \<Rightarrow> error + int \<times> bool" where
  "transition_helper m s a =
     sbind (state_to_coor m s) (\<lambda>(r, c).
       if \<not> (a \<ge> 0 \<and> a < num_actions) then Inl (AssertionError ''a >= 0 and a < len(self.Actions)'')
       else
         sbind
           (if a = LEFT then Inr (r - 1, c)
            else if a = RIGHT then Inr (r + 1, c)
            else if a = DOWN then Inr (r, c - 1)
            else if a = UP then Inr (r, c + 1)
            else if a = UP_LEFT then Inr (r - 1, c + 1)
            else if a = UP_RIGHT then Inr (r + 1, c + 1)
            else if a = DOWN_LEFT then Inr (r - 1, c - 1)
            else if a = DOWN_RIGHT then Inr (r + 1, c - 1)
            else if a = ABSORB then Inr (r, c)
            else Inl (BaseException ''undefined action''))
           (\<lambda>(r_prime, c_prime).
              let illegal = (r_prime < 0 \<or> r_prime \<ge> rows m \<or> c_prime < 0 \<or> c_prime \<ge> cols m
                             \<or> (disallow_diag m \<and> a \<in> set diagonal_actions));
                  (r2, c2) = (if illegal then (r, c) else (r_prime, c_prime))
              in sbind (coor_to_state m r2 c2) (\<lambda>s_prime. Inr (s_prime, illegal))))"

text \<open>
  The offset of each action, read off the branches of the helper, and legality as the
  specification words it: the candidate is inside the grid, and the action is not a
  diagonal one when diagonals are disallowed.
\<close>

definition offset :: "int \<Rightarrow> int \<times> int" where
  "offset a =
     (if a = LEFT then (-1, 0) else if a = RIGHT then (1, 0)
      else if a = DOWN then (0, -1) else if a = UP then (0, 1)
      else if a = UP_LEFT then (-1, 1) else if a = UP_RIGHT then (1, 1)
      else if a = DOWN_LEFT then (-1, -1) else if a = DOWN_RIGHT then (1, -1)
      else (0, 0))"

definition candidate :: "'x grid_scheme \<Rightarrow> int \<Rightarrow> int \<Rightarrow> int \<times> int" where
  "candidate m s a = (s div cols m + fst (offset a), s mod cols m + snd (offset a))"

definition legal_move :: "'x grid_scheme \<Rightarrow> int \<Rightarrow> int \<Rightarrow> bool" where
  "legal_move m s a =
     (0 \<le> fst (candidate m s a) \<and> fst (candidate m s a) < rows m
      \<and> 0 \<le> snd (candidate m s a) \<and> snd (candidate m s a) < cols m
      \<and> \<not> (disallow_diag m \<and> a \<in> set diagonal_actions))"

text \<open>
  The resulting state as the specification words it: the encoded candidate when the
  move is legal, the origin otherwise.
\<close>

definition target :: "'x grid_scheme \<Rightarrow> int \<Rightarrow> int \<Rightarrow> int" where
  "target m s a =
     (if legal_move m s a then fst (candidate m s a) * cols m + snd (candidate m s a) else s)"

subsection \<open>Construction\<close>

text \<open>
  The structures the double loop of \<^verbatim>\<open>__init__\<close> fills: the local array
  \<^verbatim>\<open>rewards\<close> and the attributes \<^verbatim>\<open>neighbors\<close>, \<^verbatim>\<open>reverse_neighbors\<close>,
  \<^verbatim>\<open>transition_cached\<close> and \<^verbatim>\<open>transition_cached_l\<close>. The source also allocates
  \<^verbatim>\<open>transition_cached_nd1d\<close> (never written, never read) and \<^verbatim>\<open>q_cache\<close> (an empty
  dictionary for another module); neither is part of the model.
  \<^verbatim>\<open>reward_dict\<close> is an association list: its keys are the coordinates, looked up
  with \<open>map_of\<close>, and \<^verbatim>\<open>reward_dict.items()\<close> is the list itself.
\<close>

type_synonym reward_dict = "((int \<times> int) \<times> np_float) list"

record tables =
  t_rewards :: "np_float ndarray"
  t_neighbors :: "(int \<times> int) list list"
  t_reverse_neighbors :: "(int \<times> int) list list"
  t_transition_cached :: "int ndarray"
  t_transition_cached_l :: "int list"

text \<open>The body of the inner loop, for one pair \<open>(s, a)\<close>.\<close>

definition init_step :: "grid \<Rightarrow> reward_dict \<Rightarrow> int \<Rightarrow> int \<Rightarrow> tables \<Rightarrow> error + tables" where
  "init_step self reward_dict s a tb =
     sbind (transition_helper self s a) (\<lambda>(s_prime, illegal).
     sbind (setitem2 (t_transition_cached tb) s a s_prime) (\<lambda>tc.
     sbind (list_setitem (t_transition_cached_l tb) (a + s * num_actions) s_prime) (\<lambda>tcl.
     sbind (state_to_coor self s_prime) (\<lambda>coor.
       let tb1 = tb\<lparr>t_transition_cached := tc, t_transition_cached_l := tcl\<rparr> in
       if \<not> illegal then
         sbind (case map_of reward_dict coor of
                  Some v \<Rightarrow> setitem2 (t_rewards tb1) s a v
                | None \<Rightarrow> Inr (t_rewards tb1)) (\<lambda>rw.
         sbind (list_append_at (t_neighbors tb1) s (a, s_prime)) (\<lambda>nb.
         sbind (list_append_at (t_reverse_neighbors tb1) s_prime (a, s)) (\<lambda>rnb.
           Inr (tb1\<lparr>t_rewards := rw, t_neighbors := nb, t_reverse_neighbors := rnb\<rparr>))))
       else
         sbind (setitem2 (t_rewards tb1) s a NegInf) (\<lambda>rw.
           Inr (tb1\<lparr>t_rewards := rw\<rparr>))))))"

text \<open>
  Lines 74 to 106 of the source: the tables as allocated, then the double loop, states
  outside and actions inside. \<^verbatim>\<open>np.empty\<close> leaves \<^verbatim>\<open>transition_cached\<close>
  uninitialised; it holds 0 here until the loop writes each cell.
\<close>

definition build_tables :: "grid \<Rightarrow> reward_dict \<Rightarrow> np_float \<Rightarrow> error + tables" where
  "build_tables self reward_dict default_reward' =
     (let S' = rows self * cols self;
          A' = num_actions;
          tb0 = \<lparr>t_rewards = np_full (nat S') (nat A') default_reward',
                 t_neighbors = replicate (nat S') [],
                 t_reverse_neighbors = replicate (nat S') [],
                 t_transition_cached = np_full (nat S') (nat A') 0,
                 t_transition_cached_l = replicate (nat (S' * A')) 0\<rparr>
      in for_each (xrange S') (\<lambda>s. for_each (xrange A') (\<lambda>a. init_step self reward_dict s a)) tb0)"

text \<open>Lines 110 to 113: each diagonal column is multiplied in place.\<close>

definition scale_diagonals :: "np_float ndarray \<Rightarrow> error + np_float ndarray" where
  "scale_diagonals M = for_each diagonal_actions (\<lambda>a M'. col_map M' a times_sqrt2) M"

text \<open>
  The engine. The fields of \<^verbatim>\<open>MDP\<close> are the record \<open>base\<close>; \<open>rewards (base m)\<close> is
  the address of the reward matrix in the store, so that two engines can be asked
  whether they share it.
\<close>

record gridworld = grid +
  default_reward :: np_float
  allow_wait :: bool
  neighbors :: "(int \<times> int) list list"
  reverse_neighbors :: "(int \<times> int) list list"
  transition_cached :: "int ndarray"
  transition_cached_l :: "int list"
  transition_cached_t :: "int list"
  base :: mdp
  state_rewards :: "np_float list"
  goal :: "int option"

text \<open>\<^verbatim>\<open>_transition\<close>, which \<^verbatim>\<open>MDP.__init__\<close> stores as \<^verbatim>\<open>self.transition\<close>.\<close>

definition cached_transition :: "gridworld \<Rightarrow> int \<Rightarrow> int \<Rightarrow> error + int" where
  "cached_transition m s a = getitem2 (transition_cached m) s a"

text \<open>
  \<^verbatim>\<open>set_goal\<close> and \<^verbatim>\<open>set_all_goals\<close> write into the array that \<^verbatim>\<open>self.rewards\<close>
  refers to; they return the engine and the store after the call.
\<close>

definition set_goal :: "heap \<Rightarrow> gridworld \<Rightarrow> int option \<Rightarrow> error + gridworld \<times> heap" where
  "set_goal h m goal_state =
     (let m1 = m\<lparr>goal := goal_state\<rparr>;
          r = rewards (base m1)
      in sbind (if allow_wait m1 then col_fill (h ! r) ABSORB (default_reward m1)
                else col_fill (h ! r) ABSORB NegInf) (\<lambda>M1.
         case goal_state of
           None \<Rightarrow> Inr (m1, h[r := M1])
         | Some g \<Rightarrow> sbind (setitem2 M1 g ABSORB (Fin 0)) (\<lambda>M2. Inr (m1, h[r := M2]))))"

definition set_all_goals :: "heap \<Rightarrow> gridworld \<Rightarrow> error + gridworld \<times> heap" where
  "set_all_goals h m =
     (let r = rewards (base m)
      in sbind (col_fill (h ! r) ABSORB (Fin 0)) (\<lambda>M1. Inr (m, h[r := M1])))"

text \<open>
  \<^verbatim>\<open>GridWorldMDP.__init__\<close>. \<open>rows'\<close> and \<open>cols'\<close> are integers, so the two
  \<^verbatim>\<open>isinstance\<close> assertions hold. The reward array is local to the constructor until
  \<^verbatim>\<open>MDP.__init__\<close> stores a reference to it; it enters the store there, at the first
  free address. The per-cell vector \<^verbatim>\<open>state_rewards\<close> is a list of rewards (numpy
  gives it the element type of \<^verbatim>\<open>default_reward\<close>); no method of the class reads it.
\<close>

definition GridWorldMDP_init ::
  "heap \<Rightarrow> int \<Rightarrow> int \<Rightarrow> reward_dict \<Rightarrow> int option \<Rightarrow> np_float \<Rightarrow> bool \<Rightarrow> bool \<Rightarrow> bool
     \<Rightarrow> error + gridworld \<times> heap" where
  "GridWorldMDP_init h rows' cols' reward_dict goal_state default_reward' euclidean_rewards
       allow_wait' disallow_diag' =
     (if \<not> rows' > 0 then Inl (AssertionError ''rows > 0'')
      else if \<not> cols' > 0 then Inl (AssertionError ''cols > 0'')
      else
        let self = \<lparr>rows = rows', cols = cols', disallow_diag = disallow_diag'\<rparr>;
            S' = rows' * cols';
            A' = num_actions
        in sbind (build_tables self reward_dict default_reward') (\<lambda>tb.
           sbind (if euclidean_rewards then scale_diagonals (t_rewards tb)
                  else Inr (t_rewards tb)) (\<lambda>rw.
           let r = length h;
               h1 = h @ [rw]
           in sbind (MDP_init h1 (IntV S') (IntV A') r
                       (FunV (getitem2 (t_transition_cached tb)))) (\<lambda>b.
              sbind (for_each reward_dict
                       (\<lambda>((r', c'), reward) sr.
                          sbind (coor_to_state self r' c') (\<lambda>k. list_setitem sr k reward))
                       (replicate (nat S') default_reward')) (\<lambda>sr.
                set_goal h1
                  \<lparr>rows = rows', cols = cols', disallow_diag = disallow_diag',
                   default_reward = default_reward', allow_wait = allow_wait',
                   neighbors = t_neighbors tb,
                   reverse_neighbors = t_reverse_neighbors tb,
                   transition_cached = t_transition_cached tb,
                   transition_cached_l = t_transition_cached_l tb,
                   transition_cached_t = t_transition_cached_l tb,
                   base = b, state_rewards = sr, goal = None\<rparr>
                  goal_state)))))"

text \<open>
  \<^verbatim>\<open>copy\<close>: a new engine from the constructor's defaults and an empty
  \<^verbatim>\<open>reward_dict\<close>, whose \<^verbatim>\<open>rewards\<close> is then pointed at a fresh array holding the
  source's values (\<^verbatim>\<open>np.copy\<close>).
\<close>

definition copy :: "heap \<Rightarrow> gridworld \<Rightarrow> error + gridworld \<times> heap" where
  "copy h m =
     sbind (GridWorldMDP_init h (rows m) (cols m) [] None (Fin (- 1)) True False False)
       (\<lambda>(cp, h1).
          let r = length h1;
              h2 = h1 @ [h1 ! rewards (base m)]
          in Inr (cp\<lparr>base := (base cp)\<lparr>rewards := r\<rparr>\<rparr>, h2))"

subsection \<open>The tables in the specification's words\<close>

text \<open>
  The reward the specification assigns to a pair during construction: negative infinity
  for an illegal move, otherwise the entry of \<^verbatim>\<open>reward_dict\<close> at the coordinate of the
  resulting state when there is one, otherwise the default reward.
\<close>

definition assigned_reward :: "'x grid_scheme \<Rightarrow> reward_dict \<Rightarrow> np_float \<Rightarrow> int \<Rightarrow> int \<Rightarrow> np_float" where
  "assigned_reward m reward_dict d s a =
     (if \<not> legal_move m s a then NegInf
      else case map_of reward_dict (target m s a div cols m, target m s a mod cols m) of
             Some v \<Rightarrow> v
           | None \<Rightarrow> d)"

text \<open>
  The loop invariant of the constructor: the shapes of the tables never change, and
  after the pairs in \<open>P\<close> have been processed the tables hold, for exactly these pairs,
  what the specification says.
\<close>

definition tables_shape :: "int \<Rightarrow> tables \<Rightarrow> bool" where
  "tables_shape n tb \<longleftrightarrow>
     nrows (t_rewards tb) = nat n \<and> ncols (t_rewards tb) = 9
     \<and> nrows (t_transition_cached tb) = nat n \<and> ncols (t_transition_cached tb) = 9
     \<and> length (t_transition_cached_l tb) = nat (n * 9)
     \<and> length (t_neighbors tb) = nat n \<and> length (t_reverse_neighbors tb) = nat n"

definition tables_inv :: "grid \<Rightarrow> reward_dict \<Rightarrow> np_float \<Rightarrow> (int \<times> int) set \<Rightarrow> tables \<Rightarrow> bool" where
  "tables_inv g reward_dict d P tb \<longleftrightarrow>
     tables_shape (rows g * cols g) tb
     \<and> (\<forall>s a. 0 \<le> s \<and> 0 \<le> a \<and> (s, a) \<in> P \<longrightarrow>
           cell (t_transition_cached tb) (nat s) (nat a) = target g s a)
     \<and> (\<forall>s a. 0 \<le> s \<and> 0 \<le> a \<longrightarrow>
           cell (t_rewards tb) (nat s) (nat a)
             = (if (s, a) \<in> P then assigned_reward g reward_dict d s a else d))
     \<and> (\<forall>s p. 0 \<le> s \<and> s < rows g * cols g \<longrightarrow>
           (p \<in> set (t_neighbors tb ! nat s))
             = (\<exists>a. p = (a, target g s a) \<and> (s, a) \<in> P \<and> legal_move g s a))
     \<and> (\<forall>t p. 0 \<le> t \<and> t < rows g * cols g \<longrightarrow>
           (p \<in> set (t_reverse_neighbors tb ! nat t))
             = (\<exists>s a. p = (a, s) \<and> (s, a) \<in> P \<and> legal_move g s a \<and> target g s a = t))"

section \<open>Proofs\<close>

lemmas action_defs =
  UP_def DOWN_def LEFT_def RIGHT_def UP_LEFT_def UP_RIGHT_def DOWN_LEFT_def
  DOWN_RIGHT_def ABSORB_def num_actions_def diagonal_actions_def

lemma sbind_Inr [simp]: "sbind (Inr v) f = f v"
  by (simp add: sbind_def)

lemma sbind_Inl [simp]: "sbind (Inl e) f = Inl e"
  by (simp add: sbind_def)

lemma sbind_eq_Inr: "(sbind x f = Inr y) = (\<exists>v. x = Inr v \<and> f v = Inr y)"
  by (cases x) simp_all

lemma py_index_in_range: "0 \<le> i \<Longrightarrow> i < int n \<Longrightarrow> py_index n i = Inr (nat i)"
  by (simp add: py_index_def)

lemma div_bounds:
  fixes s :: int
  assumes "0 < c" "0 \<le> s" "s < r * c"
  shows "0 \<le> s div c" "s div c < r" "0 \<le> s mod c" "s mod c < c"
proof -
  show "0 \<le> s div c" using assms by (simp add: pos_imp_zdiv_nonneg_iff)
  have "s div c * c + s mod c = s" by (rule div_mult_mod_eq)
  moreover have "0 \<le> s mod c" using assms(1) by simp
  ultimately have "s div c * c \<le> s" by linarith
  then have "s div c * c < r * c" using assms(3) by linarith
  then show "s div c < r" using assms(1) by (simp add: mult_less_cancel_right)
  show "0 \<le> s mod c" using assms by simp
  show "s mod c < c" using assms by simp
qed


lemma coor_to_state_ok:
  "0 \<le> r \<Longrightarrow> r < rows m \<Longrightarrow> 0 \<le> c \<Longrightarrow> c < cols m \<Longrightarrow> coor_to_state m r c = Inr (r * cols m + c)"
  by (simp add: coor_to_state_def)

lemma state_to_coor_ok:
  "0 < cols m \<Longrightarrow> s < rows m * cols m \<Longrightarrow> state_to_coor m s = Inr (s div cols m, s mod cols m)"
  by (simp add: state_to_coor_def)

lemma encode_div_mod:
  fixes c :: int
  assumes "0 < c" "0 \<le> y" "y < c"
  shows "(x * c + y) div c = x" "(x * c + y) mod c = y"
  using assms by simp_all

lemma action_cases:
  assumes "0 \<le> a" "a < num_actions"
  shows "a = UP \<or> a = DOWN \<or> a = LEFT \<or> a = RIGHT \<or> a = UP_LEFT \<or> a = UP_RIGHT
         \<or> a = DOWN_LEFT \<or> a = DOWN_RIGHT \<or> a = ABSORB"
  using assms unfolding action_defs by arith


lemma move_eq:
  assumes "0 \<le> a" "a < num_actions"
  shows "(if a = LEFT then Inr (r - 1, c)
            else if a = RIGHT then Inr (r + 1, c)
            else if a = DOWN then Inr (r, c - 1)
            else if a = UP then Inr (r, c + 1)
            else if a = UP_LEFT then Inr (r - 1, c + 1)
            else if a = UP_RIGHT then Inr (r + 1, c + 1)
            else if a = DOWN_LEFT then Inr (r - 1, c - 1)
            else if a = DOWN_RIGHT then Inr (r + 1, c - 1)
            else if a = ABSORB then Inr (r, c)
            else Inl (BaseException ''undefined action''))
         = (Inr (r + fst (offset a), c + snd (offset a)) :: error + int \<times> int)"
  using action_cases [OF assms] unfolding offset_def action_defs
  by (elim disjE) simp_all

lemma transition_helper_eq:
  assumes "0 < rows m" "0 < cols m" "0 \<le> s" "s < rows m * cols m" "0 \<le> a" "a < num_actions"
  shows "transition_helper m s a = Inr (target m s a, \<not> legal_move m s a)"
proof -
  note b = div_bounds [OF assms(2) assms(3) assms(4)]
  have dec: "state_to_coor m s = Inr (s div cols m, s mod cols m)"
    using assms by (simp add: state_to_coor_ok)
  have enc: "coor_to_state m (s div cols m) (s mod cols m) = Inr s"
    using b by (simp add: coor_to_state_ok)
  have a_ok: "a \<ge> 0 \<and> a < num_actions" using assms by simp
  show ?thesis
  proof (cases "legal_move m s a")
    case True
    then have "coor_to_state m (fst (candidate m s a)) (snd (candidate m s a))
               = Inr (fst (candidate m s a) * cols m + snd (candidate m s a))"
      by (simp add: legal_move_def coor_to_state_ok)
    with True show ?thesis
      unfolding transition_helper_def dec
      apply (simp only: sbind_Inr prod.case a_ok not_True_eq_False if_False move_eq [OF assms(5) assms(6)])
      apply (simp add: Let_def target_def)
      apply (auto simp: legal_move_def candidate_def)
      done
  next
    case False
    with enc show ?thesis
      unfolding transition_helper_def dec
      apply (simp only: sbind_Inr prod.case a_ok not_True_eq_False if_False move_eq [OF assms(5) assms(6)])
      apply (simp add: Let_def target_def)
      apply (auto simp: legal_move_def candidate_def)
      done
  qed
qed


lemma encode_bound:
  fixes r :: int
  assumes "r < n" "c < k" "0 < k"
  shows "r * k + c < n * k"
proof -
  have "r + 1 \<le> n" using assms(1) by simp
  then have "(r + 1) * k \<le> n * k" using assms(3) by (simp add: mult_right_mono)
  then show ?thesis using assms(2) by (simp add: algebra_simps)
qed

text \<open>
  Claim C6. On a grid with positive dimensions, encoding a coordinate inside the grid
  gives \<open>row * cols + column\<close> and decoding that state gives the coordinate back; and
  decoding a state in \<open>[0, rows * cols)\<close> and encoding the result gives the state back.
\<close>

theorem coor_state_roundtrip:
  assumes "0 < rows m" "0 < cols m"
  shows "(0 \<le> r \<and> r < rows m \<and> 0 \<le> c \<and> c < cols m \<longrightarrow>
           coor_to_state m r c = Inr (r * cols m + c)
           \<and> state_to_coor m (r * cols m + c) = Inr (r, c))
       \<and> (0 \<le> s \<and> s < rows m * cols m \<longrightarrow>
           state_to_coor m s = Inr (s div cols m, s mod cols m)
           \<and> coor_to_state m (s div cols m) (s mod cols m) = Inr s)"
proof (intro conjI impI)
  assume rc: "0 \<le> r \<and> r < rows m \<and> 0 \<le> c \<and> c < cols m"
  then show "coor_to_state m r c = Inr (r * cols m + c)"
    by (simp add: coor_to_state_ok)
  have "r * cols m + c < rows m * cols m"
    using rc assms(2) by (simp add: encode_bound)
  then show "state_to_coor m (r * cols m + c) = Inr (r, c)"
    using rc assms(2) by (simp add: state_to_coor_ok)
next
  assume s: "0 \<le> s \<and> s < rows m * cols m"
  then show "state_to_coor m s = Inr (s div cols m, s mod cols m)"
    using assms(2) by (simp add: state_to_coor_ok)
  from s have "0 \<le> s" "s < rows m * cols m" by simp_all
  note b = div_bounds [OF assms(2) this]
  then show "coor_to_state m (s div cols m) (s mod cols m) = Inr s"
    by (simp add: coor_to_state_ok)
qed

theorem coor_state_roundtrip_witness:
  "coor_to_state \<lparr>rows = 2, cols = 3, disallow_diag = False\<rparr> 1 2 = Inr 5
   \<and> state_to_coor \<lparr>rows = 2, cols = 3, disallow_diag = False\<rparr> 5 = Inr (1, 2)
   \<and> coor_to_state \<lparr>rows = 2, cols = 3, disallow_diag = False\<rparr> (5 div 3) (5 mod 3) = Inr 5"
  using coor_state_roundtrip [of "\<lparr>rows = 2, cols = 3, disallow_diag = False\<rparr>" 1 2 5]
  by simp

text \<open>
  Claim C7. \<^verbatim>\<open>state_to_coor\<close> asserts the upper bound only: on a 2 by 2 grid the
  state \<open>-1\<close> is decoded to the coordinate \<open>(-1, 1)\<close>, by Python's floor division, and
  no error is raised, although \<^verbatim>\<open>coor_to_state\<close> rejects that very coordinate.
\<close>

theorem state_to_coor_negative:
  "state_to_coor \<lparr>rows = 2, cols = 2, disallow_diag = False\<rparr> (- 1) = Inr (- 1, 1)
   \<and> coor_to_state \<lparr>rows = 2, cols = 2, disallow_diag = False\<rparr> (- 1) 1
       = Inl (AssertionError ''0 <= r < self.rows'')"
  by (simp add: state_to_coor_def coor_to_state_def)

text \<open>
  What the two conversions do check: \<^verbatim>\<open>coor_to_state\<close> fails exactly outside the
  grid, \<^verbatim>\<open>state_to_coor\<close> exactly from \<open>rows * cols\<close> upwards.
\<close>

lemma coor_to_state_raises_iff:
  "(\<exists>e. coor_to_state m r c = Inl e) \<longleftrightarrow> \<not> (0 \<le> r \<and> r < rows m) \<or> \<not> (0 \<le> c \<and> c < cols m)"
  by (auto simp: coor_to_state_def)

lemma state_to_coor_raises_iff:
  "0 < cols m \<Longrightarrow> (\<exists>e. state_to_coor m s = Inl e) \<longleftrightarrow> rows m * cols m \<le> s"
  by (auto simp: state_to_coor_def)

text \<open>
  Claim C9, as stated, fails: \<^verbatim>\<open>MDP.__init__\<close> has no positivity check, and accepts
  zero states with a reward matrix of shape \<open>(0, 9)\<close>.
\<close>

theorem MDP_init_accepts_zero_states:
  "MDP_init [np_full 0 9 (Fin 0)] (IntV 0) (IntV 9) 0 (FunV (\<lambda>s a. Inr s))
     = Inr \<lparr>S = IntV 0, A = IntV 9, rewards = 0, transition = FunV (\<lambda>s a. Inr s)\<rparr>"
  by (simp add: MDP_init_def isinstance_int_def callable_def shape_eq_def np_full_def)

text \<open>
  Claim C9, amended. The four assertions are checked in the order of the source, and the
  first that fails is raised: \<open>S\<close> is not an \<^verbatim>\<open>int\<close>; \<open>A\<close> is not an \<^verbatim>\<open>int\<close>; the
  shape of the reward matrix is not \<open>(S, A)\<close> (which covers every negative \<open>S\<close> or \<open>A\<close>,
  since a dimension is never negative); the transition is not callable. When all four
  hold, whatever the sign of \<open>S\<close> and \<open>A\<close>, construction succeeds and stores the four
  arguments as they were given.
\<close>

theorem MDP_init_contract:
  "(\<not> isinstance_int s \<longrightarrow> MDP_init h s a r t = Inl (AssertionError ''isinstance(S, int)''))
   \<and> (isinstance_int s \<and> \<not> isinstance_int a \<longrightarrow>
        MDP_init h s a r t = Inl (AssertionError ''isinstance(A, int)''))
   \<and> (\<forall>n k. s = IntV n \<and> a = IntV k \<and> (int (nrows (h ! r)) \<noteq> n \<or> int (ncols (h ! r)) \<noteq> k) \<longrightarrow>
        MDP_init h s a r t = Inl (AssertionError ''rewards.shape == (S, A)''))
   \<and> (\<forall>n k. s = IntV n \<and> a = IntV k \<and> int (nrows (h ! r)) = n \<and> int (ncols (h ! r)) = k
          \<and> \<not> callable t \<longrightarrow>
        MDP_init h s a r t = Inl (AssertionError ''callable(transition)''))
   \<and> (\<forall>n k f. s = IntV n \<and> a = IntV k \<and> int (nrows (h ! r)) = n \<and> int (ncols (h ! r)) = k
          \<and> t = FunV f \<longrightarrow>
        MDP_init h s a r t = Inr \<lparr>S = s, A = a, rewards = r, transition = t\<rparr>)"
  by (auto simp: MDP_init_def isinstance_int_def callable_def shape_eq_def split: pyval.splits)

theorem MDP_init_contract_witness:
  "MDP_init [np_full 4 9 (Fin 0)] (FloatV 4) (IntV 9) 0 (FunV (\<lambda>s a. Inr s))
     = Inl (AssertionError ''isinstance(S, int)'')
   \<and> MDP_init [np_full 4 9 (Fin 0)] (IntV 4) NoneV 0 (FunV (\<lambda>s a. Inr s))
     = Inl (AssertionError ''isinstance(A, int)'')
   \<and> MDP_init [np_full 4 9 (Fin 0)] (IntV (- 1)) (IntV 9) 0 (FunV (\<lambda>s a. Inr s))
     = Inl (AssertionError ''rewards.shape == (S, A)'')
   \<and> MDP_init [np_full 4 9 (Fin 0)] (IntV 4) (IntV 9) 0 NoneV
     = Inl (AssertionError ''callable(transition)'')
   \<and> MDP_init [np_full 4 9 (Fin 0)] (IntV 4) (IntV 9) 0 (FunV (\<lambda>s a. Inr s))
     = Inr \<lparr>S = IntV 4, A = IntV 9, rewards = 0, transition = FunV (\<lambda>s a. Inr s)\<rparr>"
  using MDP_init_contract [of "FloatV 4" "[np_full 4 9 (Fin 0)]" "IntV 9" 0 "FunV (\<lambda>s a. Inr s)"]
    MDP_init_contract [of "IntV 4" "[np_full 4 9 (Fin 0)]" NoneV 0 "FunV (\<lambda>s a. Inr s)"]
    MDP_init_contract [of "IntV (- 1)" "[np_full 4 9 (Fin 0)]" "IntV 9" 0 "FunV (\<lambda>s a. Inr s)"]
    MDP_init_contract [of "IntV 4" "[np_full 4 9 (Fin 0)]" "IntV 9" 0 NoneV]
    MDP_init_contract [of "IntV 4" "[np_full 4 9 (Fin 0)]" "IntV 9" 0 "FunV (\<lambda>s a. Inr s)"]
  by (simp add: isinstance_int_def callable_def np_full_def)

subsection \<open>The construction loop\<close>

lemma for_each_rule_gen:
  assumes "I pre st"
    and "\<And>pre x st. I pre st \<Longrightarrow> x \<in> set xs \<Longrightarrow> \<exists>st'. f x st = Inr st' \<and> I (pre @ [x]) st'"
  shows "\<exists>st'. for_each xs f st = Inr st' \<and> I (pre @ xs) st'"
  using assms
proof (induction xs arbitrary: pre st)
  case Nil
  then show ?case by simp
next
  case (Cons x xs)
  have "x \<in> set (x # xs)" by simp
  from Cons.prems(2) [OF Cons.prems(1) this]
  obtain st1 where 1: "f x st = Inr st1" "I (pre @ [x]) st1" by blast
  have "\<exists>st'. for_each xs f st1 = Inr st' \<and> I ((pre @ [x]) @ xs) st'"
  proof (rule Cons.IH [OF 1(2)])
    fix pre' y st'
    assume "I pre' st'" "y \<in> set xs"
    then show "\<exists>st''. f y st' = Inr st'' \<and> I (pre' @ [y]) st''"
      using Cons.prems(2) by simp
  qed
  with 1 show ?case by simp
qed

lemma for_each_rule:
  assumes "I [] st"
    and "\<And>pre x st. I pre st \<Longrightarrow> x \<in> set xs \<Longrightarrow> \<exists>st'. f x st = Inr st' \<and> I (pre @ [x]) st'"
  shows "\<exists>st'. for_each xs f st = Inr st' \<and> I xs st'"
  using for_each_rule_gen [of I "[]" st xs f] assms by simp

lemma setitem2_ok:
  "0 \<le> i \<Longrightarrow> i < int (nrows M) \<Longrightarrow> 0 \<le> j \<Longrightarrow> j < int (ncols M) \<Longrightarrow>
   setitem2 M i j v = Inr (M\<lparr>cell := (cell M)(nat i := (cell M (nat i))(nat j := v))\<rparr>)"
  by (simp add: setitem2_def py_index_in_range)

lemma getitem2_ok:
  "0 \<le> i \<Longrightarrow> i < int (nrows M) \<Longrightarrow> 0 \<le> j \<Longrightarrow> j < int (ncols M) \<Longrightarrow>
   getitem2 M i j = Inr (cell M (nat i) (nat j))"
  by (simp add: getitem2_def py_index_in_range)

lemma list_setitem_ok:
  "0 \<le> i \<Longrightarrow> i < int (length xs) \<Longrightarrow> list_setitem xs i v = Inr (xs[nat i := v])"
  by (simp add: list_setitem_def py_index_in_range)

lemma list_append_at_ok:
  "0 \<le> i \<Longrightarrow> i < int (length xs) \<Longrightarrow>
   list_append_at xs i v = Inr (xs[nat i := xs ! nat i @ [v]])"
  by (simp add: list_append_at_def py_index_in_range)

lemma target_range:
  assumes "0 < cols m" "0 \<le> s" "s < rows m * cols m"
  shows "0 \<le> target m s a" "target m s a < rows m * cols m"
proof -
  show "0 \<le> target m s a"
    using assms by (auto simp: target_def legal_move_def)
  show "target m s a < rows m * cols m"
    using assms by (auto simp: target_def legal_move_def intro: encode_bound)
qed


lemma init_step_inv:
  assumes g: "0 < rows g" "0 < cols g"
    and s: "0 \<le> s" "s < rows g * cols g"
    and a: "0 \<le> a" "a < num_actions"
    and inv: "tables_inv g rd d P tb"
  shows "\<exists>tb'. init_step g rd s a tb = Inr tb' \<and> tables_inv g rd d (insert (s, a) P) tb'"
proof -
  let ?t = "target g s a"
  have sh: "tables_shape (rows g * cols g) tb" using inv by (simp add: tables_inv_def)
  have th: "transition_helper g s a = Inr (?t, \<not> legal_move g s a)"
    using g s a by (rule transition_helper_eq)
  have tr: "0 \<le> ?t" "?t < rows g * cols g"
    using target_range [OF g(2) s] by simp_all
  have dec: "state_to_coor g ?t = Inr (?t div cols g, ?t mod cols g)"
    using g tr by (simp add: state_to_coor_ok)
  have a9: "a < 9" using a by (simp add: num_actions_def)
  have idx: "0 \<le> a + s * 9" "a + s * 9 < rows g * cols g * 9"
    using s a9 a(1) by simp_all
  have tc: "setitem2 (t_transition_cached tb) s a ?t
            = Inr ((t_transition_cached tb)\<lparr>cell := (cell (t_transition_cached tb))
                 (nat s := (cell (t_transition_cached tb) (nat s))(nat a := ?t))\<rparr>)"
    using sh s a a9 by (intro setitem2_ok) (simp_all add: tables_shape_def)
  have tcl: "list_setitem (t_transition_cached_l tb) (a + s * num_actions) ?t
            = Inr ((t_transition_cached_l tb)[nat (a + s * 9) := ?t])"
    using sh idx s(1) by (simp add: num_actions_def list_setitem_ok tables_shape_def)
  have rw: "setitem2 (t_rewards tb) s a v
            = Inr ((t_rewards tb)\<lparr>cell := (cell (t_rewards tb))
                 (nat s := (cell (t_rewards tb) (nat s))(nat a := v))\<rparr>)" for v
    using sh s a a9 by (intro setitem2_ok) (simp_all add: tables_shape_def)
  have nb: "list_append_at (t_neighbors tb) s (a, ?t)
            = Inr ((t_neighbors tb)[nat s := t_neighbors tb ! nat s @ [(a, ?t)]])"
    using sh s by (simp add: list_append_at_ok tables_shape_def)
  have rnb: "list_append_at (t_reverse_neighbors tb) ?t (a, s)
            = Inr ((t_reverse_neighbors tb)[nat ?t := t_reverse_neighbors tb ! nat ?t @ [(a, s)]])"
    using sh tr by (simp add: list_append_at_ok tables_shape_def)
  have neq: "nat i = nat s \<longleftrightarrow> i = s" "nat j = nat a \<longleftrightarrow> j = a" if "0 \<le> i" "0 \<le> j" for i j
    using that s(1) a(1) by auto
  show ?thesis
  proof (cases "legal_move g s a")
    case False
    have step: "init_step g rd s a tb
        = Inr (tb\<lparr>t_transition_cached := (t_transition_cached tb)\<lparr>cell := (cell (t_transition_cached tb))
                 (nat s := (cell (t_transition_cached tb) (nat s))(nat a := ?t))\<rparr>,
               t_transition_cached_l := (t_transition_cached_l tb)[nat (a + s * 9) := ?t],
               t_rewards := (t_rewards tb)\<lparr>cell := (cell (t_rewards tb))
                 (nat s := (cell (t_rewards tb) (nat s))(nat a := NegInf))\<rparr>\<rparr>)"
      using False by (simp add: init_step_def th tc tcl dec rw Let_def)
    show ?thesis
      unfolding step
      apply (rule exI, rule conjI, rule refl)
      using inv False s a
      apply (simp add: tables_inv_def tables_shape_def assigned_reward_def)
      apply (intro conjI allI impI)
         apply (auto simp: neq eq_nat_nat_iff)
      done
  next
    case True
    let ?rw = "case map_of rd (?t div cols g, ?t mod cols g) of
                 Some v \<Rightarrow> (t_rewards tb)\<lparr>cell := (cell (t_rewards tb))
                    (nat s := (cell (t_rewards tb) (nat s))(nat a := v))\<rparr>
               | None \<Rightarrow> t_rewards tb"
    have step: "init_step g rd s a tb
        = Inr (tb\<lparr>t_transition_cached := (t_transition_cached tb)\<lparr>cell := (cell (t_transition_cached tb))
                 (nat s := (cell (t_transition_cached tb) (nat s))(nat a := ?t))\<rparr>,
               t_transition_cached_l := (t_transition_cached_l tb)[nat (a + s * 9) := ?t],
               t_rewards := ?rw,
               t_neighbors := (t_neighbors tb)[nat s := t_neighbors tb ! nat s @ [(a, ?t)]],
               t_reverse_neighbors :=
                 (t_reverse_neighbors tb)[nat ?t := t_reverse_neighbors tb ! nat ?t @ [(a, s)]]\<rparr>)"
      using True by (simp add: init_step_def th tc tcl dec rw nb rnb Let_def split: option.split)
    have rwshape: "nrows ?rw = nrows (t_rewards tb)" "ncols ?rw = ncols (t_rewards tb)"
      by (simp_all split: option.split)
    have rwcell: "cell ?rw (nat i) (nat j)
        = (if i = s \<and> j = a then (case map_of rd (?t div cols g, ?t mod cols g) of
              Some v \<Rightarrow> v | None \<Rightarrow> cell (t_rewards tb) (nat s) (nat a))
           else cell (t_rewards tb) (nat i) (nat j))" if "0 \<le> i" "0 \<le> j" for i j
      using that by (auto simp: neq split: option.split)
    show ?thesis
      unfolding step
      apply (rule exI, rule conjI, rule refl)
      using inv True s a tr
      apply (simp add: tables_inv_def tables_shape_def rwshape)
      apply (intro conjI allI impI)
         apply (auto simp: neq eq_nat_nat_iff rwcell assigned_reward_def nth_list_update split: option.split)
      done
  qed
qed


lemma xrange_set: "x \<in> set (xrange n) \<longleftrightarrow> 0 \<le> x \<and> x < n"
proof
  assume "x \<in> set (xrange n)"
  then show "0 \<le> x \<and> x < n" by (auto simp: xrange_def)
next
  assume "0 \<le> x \<and> x < n"
  then have "nat x < nat n" "x = int (nat x)" by simp_all
  then show "x \<in> set (xrange n)" unfolding xrange_def by (metis atLeast0LessThan imageI lessThan_iff set_map set_upt)
qed

lemma tables_inv_init:
  "tables_inv g rd d {}
     \<lparr>t_rewards = np_full (nat (rows g * cols g)) (nat num_actions) d,
      t_neighbors = replicate (nat (rows g * cols g)) [],
      t_reverse_neighbors = replicate (nat (rows g * cols g)) [],
      t_transition_cached = np_full (nat (rows g * cols g)) (nat num_actions) 0,
      t_transition_cached_l = replicate (nat (rows g * cols g * num_actions)) 0\<rparr>"
  by (simp add: tables_inv_def tables_shape_def np_full_def num_actions_def)

lemma inner_loop_inv:
  assumes g: "0 < rows g" "0 < cols g"
    and s: "0 \<le> s" "s < rows g * cols g"
    and inv: "tables_inv g rd d Q tb"
  shows "\<exists>tb'. for_each (xrange num_actions) (\<lambda>a. init_step g rd s a) tb = Inr tb'
           \<and> tables_inv g rd d (Q \<union> {s} \<times> {a. 0 \<le> a \<and> a < num_actions}) tb'"
proof -
  let ?I = "\<lambda>pre tb. tables_inv g rd d (Q \<union> {s} \<times> set pre) tb"
  have "\<exists>tb'. for_each (xrange num_actions) (\<lambda>a. init_step g rd s a) tb = Inr tb'
           \<and> ?I (xrange num_actions) tb'"
  proof (rule for_each_rule [where I = ?I])
    show "?I [] tb" using inv by simp
  next
    fix pre a st
    assume I: "?I pre st" and "a \<in> set (xrange num_actions)"
    then have a: "0 \<le> a" "a < num_actions" by (simp_all add: xrange_set)
    have eq: "insert (s, a) (Q \<union> {s} \<times> set pre) = Q \<union> {s} \<times> set (pre @ [a])" by auto
    from init_step_inv [OF g s a I]
    show "\<exists>st'. init_step g rd s a st = Inr st' \<and> ?I (pre @ [a]) st'"
      unfolding eq .
  qed
  moreover have "set (xrange num_actions) = {a. 0 \<le> a \<and> a < num_actions}"
    by (auto simp: xrange_set)
  ultimately show ?thesis by simp
qed

lemma build_tables_inv:
  assumes g: "0 < rows g" "0 < cols g"
  shows "\<exists>tb. build_tables g rd d = Inr tb
           \<and> tables_inv g rd d
                ({s. 0 \<le> s \<and> s < rows g * cols g} \<times> {a. 0 \<le> a \<and> a < num_actions}) tb"
proof -
  let ?A = "{a. 0 \<le> a \<and> a < num_actions}"
  let ?I = "\<lambda>pre tb. tables_inv g rd d (set pre \<times> ?A) tb"
  let ?tb0 = "\<lparr>t_rewards = np_full (nat (rows g * cols g)) (nat num_actions) d,
      t_neighbors = replicate (nat (rows g * cols g)) [],
      t_reverse_neighbors = replicate (nat (rows g * cols g)) [],
      t_transition_cached = np_full (nat (rows g * cols g)) (nat num_actions) 0,
      t_transition_cached_l = replicate (nat (rows g * cols g * num_actions)) 0\<rparr>"
  have "\<exists>tb. for_each (xrange (rows g * cols g))
               (\<lambda>s. for_each (xrange num_actions) (\<lambda>a. init_step g rd s a)) ?tb0 = Inr tb
           \<and> ?I (xrange (rows g * cols g)) tb"
  proof (rule for_each_rule [where I = ?I])
    show "?I [] ?tb0" using tables_inv_init [of g rd d] by simp
  next
    fix pre s st
    assume I: "?I pre st" and "s \<in> set (xrange (rows g * cols g))"
    then have s: "0 \<le> s" "s < rows g * cols g" by (simp_all add: xrange_set)
    have eq: "set pre \<times> ?A \<union> {s} \<times> ?A = set (pre @ [s]) \<times> ?A" by auto
    from inner_loop_inv [OF g s I]
    show "\<exists>st'. for_each (xrange num_actions) (\<lambda>a. init_step g rd s a) st = Inr st'
             \<and> ?I (pre @ [s]) st'"
      unfolding eq .
  qed
  moreover have "set (xrange (rows g * cols g)) = {s. 0 \<le> s \<and> s < rows g * cols g}"
    by (auto simp: xrange_set)
  ultimately show ?thesis by (simp add: build_tables_def Let_def)
qed

subsection \<open>Scaling, goal reconfiguration and the constructed engine\<close>

lemma col_map_ok:
  "0 \<le> j \<Longrightarrow> j < int (ncols M) \<Longrightarrow>
   col_map M j f = Inr (M\<lparr>cell := (\<lambda>i k. if k = nat j then f (cell M i k) else cell M i k)\<rparr>)"
  by (simp add: col_map_def py_index_in_range)

lemma scale_diagonals_ok:
  assumes "ncols M = 9"
  shows "\<exists>M'. scale_diagonals M = Inr M' \<and> nrows M' = nrows M \<and> ncols M' = 9
           \<and> (\<forall>i k. cell M' i k = (if 4 \<le> k \<and> k \<le> 7 then times_sqrt2 (cell M i k) else cell M i k))"
  using assms
  by (auto simp: scale_diagonals_def action_defs col_map_ok)

lemma set_goal_Some_ok:
  assumes "ncols (h ! rewards (base m)) = 9" "0 \<le> g" "g < int (nrows (h ! rewards (base m)))"
  shows "set_goal h m (Some g)
     = Inr (m\<lparr>goal := Some g\<rparr>,
            h[rewards (base m) := (h ! rewards (base m))\<lparr>cell := (\<lambda>i k.
                if k = 8 then (if i = nat g then Fin 0
                               else if allow_wait m then default_reward m else NegInf)
                else cell (h ! rewards (base m)) i k)\<rparr>])"
proof -
  let ?M = "h ! rewards (base m)"
  let ?v = "if allow_wait m then default_reward m else NegInf"
  let ?M1 = "?M\<lparr>cell := (\<lambda>i k. if k = 8 then ?v else cell ?M i k)\<rparr>"
  have 1: "col_fill ?M ABSORB ?v = Inr ?M1"
    using assms(1) by (simp add: col_fill_def col_map_ok ABSORB_def)
  have 2: "setitem2 ?M1 g ABSORB (Fin 0)
           = Inr (?M1\<lparr>cell := (cell ?M1)(nat g := (cell ?M1 (nat g))(nat ABSORB := Fin 0))\<rparr>)"
    using assms by (intro setitem2_ok) (simp_all add: ABSORB_def)
  have 3: "?M1\<lparr>cell := (cell ?M1)(nat g := (cell ?M1 (nat g))(nat ABSORB := Fin 0))\<rparr>
           = ?M\<lparr>cell := (\<lambda>i k. if k = 8 then (if i = nat g then Fin 0 else ?v) else cell ?M i k)\<rparr>"
    by (simp add: fun_eq_iff ABSORB_def)
  have "set_goal h m (Some g)
        = Inr (m\<lparr>goal := Some g\<rparr>,
               h[rewards (base m) := ?M1\<lparr>cell := (cell ?M1)(nat g := (cell ?M1 (nat g))(nat ABSORB := Fin 0))\<rparr>])"
    unfolding set_goal_def Let_def using 1 2 by (simp split: if_splits)
  then show ?thesis unfolding 3 by (simp cong: if_cong)
qed

lemma set_goal_None_ok:
  assumes "ncols (h ! rewards (base m)) = 9"
  shows "set_goal h m None
     = Inr (m\<lparr>goal := None\<rparr>,
            h[rewards (base m) := (h ! rewards (base m))\<lparr>cell := (\<lambda>i k.
                if k = 8 then (if allow_wait m then default_reward m else NegInf)
                else cell (h ! rewards (base m)) i k)\<rparr>])"
  using assms
  by (auto simp: set_goal_def Let_def col_fill_def col_map_ok ABSORB_def fun_eq_iff)

lemma col_map_frame:
  assumes "col_map M j f = Inr M'"
  shows "nrows M' = nrows M" "ncols M' = ncols M"
    "\<exists>j'. py_index (ncols M) j = Inr j' \<and> (\<forall>i k. k \<noteq> j' \<longrightarrow> cell M' i k = cell M i k)"
  using assms by (auto simp: col_map_def sbind_eq_Inr)

lemma setitem2_frame:
  assumes "setitem2 M i j v = Inr M'"
  shows "nrows M' = nrows M" "ncols M' = ncols M"
    "\<exists>j'. py_index (ncols M) j = Inr j' \<and> (\<forall>i k. k \<noteq> j' \<longrightarrow> cell M' i k = cell M i k)"
  using assms by (auto simp: setitem2_def sbind_eq_Inr)

lemma py_index_9_8: "py_index 9 8 = Inr 8"
  by (simp add: py_index_def)

lemma set_goal_frame:
  assumes "set_goal h m goal_state = Inr (m', h')"
  shows "m' = m\<lparr>goal := goal_state\<rparr>"
    and "length h' = length h"
    and "\<And>a. a \<noteq> rewards (base m) \<Longrightarrow> h' ! a = h ! a"
    and "rewards (base m) < length h \<Longrightarrow> nrows (h' ! rewards (base m)) = nrows (h ! rewards (base m))"
    and "rewards (base m) < length h \<Longrightarrow> ncols (h' ! rewards (base m)) = ncols (h ! rewards (base m))"
    and "rewards (base m) < length h \<Longrightarrow> ncols (h ! rewards (base m)) = 9 \<Longrightarrow> k \<noteq> 8 \<Longrightarrow>
           cell (h' ! rewards (base m)) i k = cell (h ! rewards (base m)) i k"
proof -
  let ?r = "rewards (base m)"
  let ?v = "if allow_wait m then default_reward m else NegInf"
  from assms have "\<exists>M1 M2. col_fill (h ! ?r) ABSORB ?v = Inr M1
      \<and> (M2 = M1 \<or> (\<exists>g. setitem2 M1 g ABSORB (Fin 0) = Inr M2))
      \<and> m' = m\<lparr>goal := goal_state\<rparr> \<and> h' = h[?r := M2]"
    apply (auto simp: set_goal_def Let_def sbind_eq_Inr split: if_splits option.splits)
     apply blast+
    done
  then obtain M1 M2 where M1: "col_fill (h ! ?r) ABSORB ?v = Inr M1"
    and M2: "M2 = M1 \<or> (\<exists>g. setitem2 M1 g ABSORB (Fin 0) = Inr M2)"
    and res: "m' = m\<lparr>goal := goal_state\<rparr>" "h' = h[?r := M2]"
    by blast
  note f1 = col_map_frame [OF M1 [unfolded col_fill_def]]
  show "m' = m\<lparr>goal := goal_state\<rparr>" by (rule res)
  show "length h' = length h" by (simp add: res)
  show "\<And>a. a \<noteq> ?r \<Longrightarrow> h' ! a = h ! a" by (simp add: res)
  from M2 have sh: "nrows M2 = nrows (h ! ?r)" "ncols M2 = ncols (h ! ?r)"
    using f1 by (auto dest: setitem2_frame)
  show "?r < length h \<Longrightarrow> nrows (h' ! ?r) = nrows (h ! ?r)" by (simp add: res sh)
  show "?r < length h \<Longrightarrow> ncols (h' ! ?r) = ncols (h ! ?r)" by (simp add: res sh)
  show "cell (h' ! ?r) i k = cell (h ! ?r) i k" if "?r < length h" "ncols (h ! ?r) = 9" "k \<noteq> 8"
  proof -
    from f1(3) that(2) have c1: "cell M1 i k = cell (h ! ?r) i k"
      using that(3) by (auto simp: ABSORB_def py_index_9_8)
    from M2 have "cell M2 i k = cell M1 i k"
    proof
      assume "M2 = M1" then show ?thesis by simp
    next
      assume "\<exists>g. setitem2 M1 g ABSORB (Fin 0) = Inr M2"
      then obtain g where "setitem2 M1 g ABSORB (Fin 0) = Inr M2" ..
      from setitem2_frame(3) [OF this] f1(2) that(2) that(3)
      show ?thesis by (auto simp: ABSORB_def py_index_9_8)
    qed
    with c1 show ?thesis using that(1) by (simp add: res)
  qed
qed


lemma init_Inr_ex:
  assumes "GridWorldMDP_init h rows' cols' rd gs d eu aw dd = Inr (m, h')"
  shows "0 < rows' \<and> 0 < cols' \<and> (\<exists>tb rw sr.
    build_tables \<lparr>rows = rows', cols = cols', disallow_diag = dd\<rparr> rd d = Inr tb
    \<and> (if eu then scale_diagonals (t_rewards tb) else Inr (t_rewards tb)) = Inr rw
    \<and> int (nrows rw) = rows' * cols' \<and> int (ncols rw) = num_actions
    \<and> set_goal (h @ [rw])
        \<lparr>rows = rows', cols = cols', disallow_diag = dd,
         default_reward = d, allow_wait = aw,
         neighbors = t_neighbors tb,
         reverse_neighbors = t_reverse_neighbors tb,
         transition_cached = t_transition_cached tb,
         transition_cached_l = t_transition_cached_l tb,
         transition_cached_t = t_transition_cached_l tb,
         base = \<lparr>S = IntV (rows' * cols'), A = IntV num_actions, rewards = length h,
                 transition = FunV (getitem2 (t_transition_cached tb))\<rparr>,
         state_rewards = sr, goal = None\<rparr> gs = Inr (m, h'))"
proof (cases eu)
  case True
  with assms show ?thesis
    unfolding GridWorldMDP_init_def Let_def MDP_init_def
    by (auto simp: sbind_eq_Inr shape_eq_def isinstance_int_def callable_def split: if_splits)
next
  case False
  with assms show ?thesis
    unfolding GridWorldMDP_init_def Let_def MDP_init_def
    by (auto simp: sbind_eq_Inr shape_eq_def isinstance_int_def callable_def split: if_splits)
qed


lemma grid_cong:
  fixes m :: "'x grid_scheme" and g :: "'y grid_scheme"
  assumes "rows m = rows g" "cols m = cols g" "disallow_diag m = disallow_diag g"
  shows "legal_move m s a = legal_move g s a"
    and "target m s a = target g s a"
    and "assigned_reward m rd d s a = assigned_reward g rd d s a"
proof -
  show l: "legal_move m s a = legal_move g s a"
    using assms by (simp add: legal_move_def candidate_def)
  show t: "target m s a = target g s a"
    using assms l by (simp add: target_def candidate_def)
  show "assigned_reward m rd d s a = assigned_reward g rd d s a"
    using assms l t by (simp add: assigned_reward_def)
qed

lemma init_constructed:
  assumes "GridWorldMDP_init h rows' cols' rd gs d eu aw dd = Inr (m, h')"
  obtains tb rw where
    "0 < rows'" "0 < cols'"
    "rows m = rows'" "cols m = cols'" "disallow_diag m = dd"
    "default_reward m = d" "allow_wait m = aw" "goal m = gs"
    "neighbors m = t_neighbors tb" "reverse_neighbors m = t_reverse_neighbors tb"
    "transition_cached m = t_transition_cached tb"
    "rewards (base m) = length h" "length h' = Suc (length h)"
    "\<forall>a. a < length h \<longrightarrow> h' ! a = h ! a"
    "build_tables \<lparr>rows = rows', cols = cols', disallow_diag = dd\<rparr> rd d = Inr tb"
    "tables_inv \<lparr>rows = rows', cols = cols', disallow_diag = dd\<rparr> rd d
       ({s. 0 \<le> s \<and> s < rows' * cols'} \<times> {a. 0 \<le> a \<and> a < num_actions}) tb"
    "(if eu then scale_diagonals (t_rewards tb) else Inr (t_rewards tb)) = Inr rw"
    "nrows (h' ! length h) = nat (rows' * cols')" "ncols (h' ! length h) = 9"
    "\<forall>i k. k \<noteq> 8 \<longrightarrow> cell (h' ! length h) i k = cell rw i k"
proof -
  let ?g = "\<lparr>rows = rows', cols = cols', disallow_diag = dd\<rparr>"
  from init_Inr_ex [OF assms] obtain tb rw sr where
    pos: "0 < rows'" "0 < cols'"
    and bt: "build_tables ?g rd d = Inr tb"
    and rw: "(if eu then scale_diagonals (t_rewards tb) else Inr (t_rewards tb)) = Inr rw"
    and shp: "int (nrows rw) = rows' * cols'" "int (ncols rw) = num_actions"
    and sg: "set_goal (h @ [rw])
        \<lparr>rows = rows', cols = cols', disallow_diag = dd,
         default_reward = d, allow_wait = aw,
         neighbors = t_neighbors tb,
         reverse_neighbors = t_reverse_neighbors tb,
         transition_cached = t_transition_cached tb,
         transition_cached_l = t_transition_cached_l tb,
         transition_cached_t = t_transition_cached_l tb,
         base = \<lparr>S = IntV (rows' * cols'), A = IntV num_actions, rewards = length h,
                 transition = FunV (getitem2 (t_transition_cached tb))\<rparr>,
         state_rewards = sr, goal = None\<rparr> gs = Inr (m, h')"
    by blast
  note fr = set_goal_frame [OF sg, simplified]
  from build_tables_inv [of ?g rd d] pos bt
  have inv: "tables_inv ?g rd d
       ({s. 0 \<le> s \<and> s < rows' * cols'} \<times> {a. 0 \<le> a \<and> a < num_actions}) tb"
    by simp
  have nc: "ncols rw = 9" using shp(2) by (simp add: num_actions_def)
  have nr: "nrows rw = nat (rows' * cols')" using shp(1) by simp
  show ?thesis
  proof (rule that [of tb rw])
    show "0 < rows'" "0 < cols'" by (rule pos)+
    show "rows m = rows'" "cols m = cols'" "disallow_diag m = dd"
      "default_reward m = d" "allow_wait m = aw" "goal m = gs"
      "neighbors m = t_neighbors tb" "reverse_neighbors m = t_reverse_neighbors tb"
      "transition_cached m = t_transition_cached tb"
      "rewards (base m) = length h"
      by (simp_all add: fr(1))
    show "length h' = Suc (length h)" using fr(2) by simp
    show "\<forall>a. a < length h \<longrightarrow> h' ! a = h ! a"
      using fr(3) by (simp add: nth_append)
    show "build_tables ?g rd d = Inr tb" by (rule bt)
    show "tables_inv ?g rd d
       ({s. 0 \<le> s \<and> s < rows' * cols'} \<times> {a. 0 \<le> a \<and> a < num_actions}) tb" by (rule inv)
    show "(if eu then scale_diagonals (t_rewards tb) else Inr (t_rewards tb)) = Inr rw" by (rule rw)
    show "nrows (h' ! length h) = nat (rows' * cols')" using fr(4) nr by simp
    show "ncols (h' ! length h) = 9" using fr(5) nc by simp
    show "\<forall>i k. k \<noteq> 8 \<longrightarrow> cell (h' ! length h) i k = cell rw i k"
      using fr(6) nc by simp
  qed
qed

lemma state_rewards_loop:
  fixes g :: grid and rd :: reward_dict and sr :: "np_float list"
  assumes "0 < cols g"
    and "\<forall>((r, c), v) \<in> set rd. 0 \<le> r \<and> r < rows g \<and> 0 \<le> c \<and> c < cols g"
    and "length sr = nat (rows g * cols g)"
  shows "\<exists>sr'. for_each rd
           (\<lambda>((r', c'), reward) sr.
              sbind (coor_to_state g r' c') (\<lambda>k. list_setitem sr k reward)) sr = Inr sr'"
proof -
  let ?I = "\<lambda>(pre :: ((int \<times> int) \<times> np_float) list) (sr :: np_float list).
              length sr = nat (rows g * cols g)"
  have "\<exists>sr'. for_each rd
           (\<lambda>((r', c'), reward) sr.
              sbind (coor_to_state g r' c') (\<lambda>k. list_setitem sr k reward)) sr = Inr sr'
          \<and> ?I rd sr'"
  proof (rule for_each_rule_gen [where I = ?I and pre = "[]", simplified])
    show "length sr = nat (rows g * cols g)" by (rule assms(3))
  next
    fix x :: "(int \<times> int) \<times> np_float" and st :: "np_float list"
    assume len: "length st = nat (rows g * cols g)" and x: "x \<in> set rd"
    obtain r c v where xe: "x = ((r, c), v)" by (metis surj_pair)
    with x assms(2) have rc: "0 \<le> r" "r < rows g" "0 \<le> c" "c < cols g" by auto
    have "r * cols g + c < rows g * cols g" using rc assms(1) by (simp add: encode_bound)
    moreover have "0 \<le> r * cols g + c" using rc assms(1) by simp
    ultimately show "\<exists>st'. (case x of (x, xa) \<Rightarrow> (case x of (r', c') \<Rightarrow> \<lambda>reward sr.
                 sbind (coor_to_state g r' c') (\<lambda>k. list_setitem sr k reward)) xa) st = Inr st'
              \<and> length st' = nat (rows g * cols g)"
      using rc len by (simp add: xe coor_to_state_ok list_setitem_ok)
  qed
  then show ?thesis by blast
qed

lemma init_succeeds:
  assumes "0 < rows'" "0 < cols'"
    and "\<forall>((r, c), v) \<in> set rd. 0 \<le> r \<and> r < rows' \<and> 0 \<le> c \<and> c < cols'"
    and "gs = None \<or> (\<exists>g. gs = Some g \<and> 0 \<le> g \<and> g < rows' * cols')"
  shows "\<exists>m h'. GridWorldMDP_init h rows' cols' rd gs d eu aw dd = Inr (m, h')"
proof -
  let ?g = "\<lparr>rows = rows', cols = cols', disallow_diag = dd\<rparr>"
  from build_tables_inv [of ?g rd d] assms(1,2) obtain tb where
    bt: "build_tables ?g rd d = Inr tb"
    and inv: "tables_inv ?g rd d
       ({s. 0 \<le> s \<and> s < rows' * cols'} \<times> {a. 0 \<le> a \<and> a < num_actions}) tb"
    by auto
  have sh: "nrows (t_rewards tb) = nat (rows' * cols')" "ncols (t_rewards tb) = 9"
    using inv by (simp_all add: tables_inv_def tables_shape_def)
  obtain rw where rw: "(if eu then scale_diagonals (t_rewards tb) else Inr (t_rewards tb)) = Inr rw"
    and rsh: "nrows rw = nat (rows' * cols')" "ncols rw = 9"
    using scale_diagonals_ok [OF sh(2)] sh by (cases eu) auto
  from state_rewards_loop [of ?g rd "replicate (nat (rows' * cols')) d"] assms(2,3)
  obtain sr where sr: "for_each rd
           (\<lambda>((r', c'), reward) sr.
              sbind (coor_to_state ?g r' c') (\<lambda>k. list_setitem sr k reward))
           (replicate (nat (rows' * cols')) d) = Inr sr"
    by auto
  have pos: "0 < rows' * cols'" using assms(1,2) by simp
  have mdp: "MDP_init (h @ [rw]) (IntV (rows' * cols')) (IntV num_actions) (length h)
               (FunV (getitem2 (t_transition_cached tb)))
             = Inr \<lparr>S = IntV (rows' * cols'), A = IntV num_actions, rewards = length h,
                 transition = FunV (getitem2 (t_transition_cached tb))\<rparr>"
    using rsh pos
    by (simp add: MDP_init_def isinstance_int_def callable_def shape_eq_def num_actions_def)
  let ?m0 = "\<lparr>rows = rows', cols = cols', disallow_diag = dd,
         default_reward = d, allow_wait = aw,
         neighbors = t_neighbors tb,
         reverse_neighbors = t_reverse_neighbors tb,
         transition_cached = t_transition_cached tb,
         transition_cached_l = t_transition_cached_l tb,
         transition_cached_t = t_transition_cached_l tb,
         base = \<lparr>S = IntV (rows' * cols'), A = IntV num_actions, rewards = length h,
                 transition = FunV (getitem2 (t_transition_cached tb))\<rparr>,
         state_rewards = sr, goal = None\<rparr>"
  have "\<exists>m h'. set_goal (h @ [rw]) ?m0 gs = Inr (m, h')"
  proof (cases gs)
    case None
    then show ?thesis using set_goal_None_ok [of "h @ [rw]" ?m0] rsh by simp
  next
    case (Some gl)
    with assms(4) have "0 \<le> gl" "gl < rows' * cols'" by auto
    then show ?thesis using set_goal_Some_ok [of "h @ [rw]" ?m0 gl] rsh Some by simp
  qed
  then show ?thesis
    using assms(1,2) bt rw mdp sr
    unfolding GridWorldMDP_init_def Let_def by (cases eu) simp_all
qed

subsection \<open>Transitions and adjacency of a constructed engine\<close>

lemma tables_invD:
  assumes "tables_inv g rd d P tb"
  shows "tables_shape (rows g * cols g) tb"
    and "0 \<le> s \<Longrightarrow> 0 \<le> a \<Longrightarrow> (s, a) \<in> P \<Longrightarrow>
           cell (t_transition_cached tb) (nat s) (nat a) = target g s a"
    and "0 \<le> s \<Longrightarrow> 0 \<le> a \<Longrightarrow>
           cell (t_rewards tb) (nat s) (nat a)
             = (if (s, a) \<in> P then assigned_reward g rd d s a else d)"
    and "0 \<le> s \<Longrightarrow> s < rows g * cols g \<Longrightarrow>
           (p \<in> set (t_neighbors tb ! nat s))
             = (\<exists>a. p = (a, target g s a) \<and> (s, a) \<in> P \<and> legal_move g s a)"
    and "0 \<le> t \<Longrightarrow> t < rows g * cols g \<Longrightarrow>
           (p \<in> set (t_reverse_neighbors tb ! nat t))
             = (\<exists>s a. p = (a, s) \<and> (s, a) \<in> P \<and> legal_move g s a \<and> target g s a = t)"
proof -
  from assms show "tables_shape (rows g * cols g) tb" by (simp add: tables_inv_def)
  from assms have 1: "\<forall>s a. 0 \<le> s \<and> 0 \<le> a \<and> (s, a) \<in> P \<longrightarrow>
           cell (t_transition_cached tb) (nat s) (nat a) = target g s a"
    by (simp add: tables_inv_def)
  from assms have 2: "\<forall>s a. 0 \<le> s \<and> 0 \<le> a \<longrightarrow>
           cell (t_rewards tb) (nat s) (nat a)
             = (if (s, a) \<in> P then assigned_reward g rd d s a else d)"
    by (simp add: tables_inv_def)
  from assms have 3: "\<forall>s p. 0 \<le> s \<and> s < rows g * cols g \<longrightarrow>
           (p \<in> set (t_neighbors tb ! nat s))
             = (\<exists>a. p = (a, target g s a) \<and> (s, a) \<in> P \<and> legal_move g s a)"
    unfolding tables_inv_def by (elim conjE)
  from assms have 4: "\<forall>t p. 0 \<le> t \<and> t < rows g * cols g \<longrightarrow>
           (p \<in> set (t_reverse_neighbors tb ! nat t))
             = (\<exists>s a. p = (a, s) \<and> (s, a) \<in> P \<and> legal_move g s a \<and> target g s a = t)"
    unfolding tables_inv_def by (elim conjE)
  show "0 \<le> s \<Longrightarrow> 0 \<le> a \<Longrightarrow> (s, a) \<in> P \<Longrightarrow>
           cell (t_transition_cached tb) (nat s) (nat a) = target g s a"
    using 1 by blast
  show "0 \<le> s \<Longrightarrow> 0 \<le> a \<Longrightarrow>
           cell (t_rewards tb) (nat s) (nat a)
             = (if (s, a) \<in> P then assigned_reward g rd d s a else d)"
    using 2 by blast
  show "0 \<le> s \<Longrightarrow> s < rows g * cols g \<Longrightarrow>
           (p \<in> set (t_neighbors tb ! nat s))
             = (\<exists>a. p = (a, target g s a) \<and> (s, a) \<in> P \<and> legal_move g s a)"
    using 3 [rule_format, of s p] by simp
  show "0 \<le> t \<Longrightarrow> t < rows g * cols g \<Longrightarrow>
           (p \<in> set (t_reverse_neighbors tb ! nat t))
             = (\<exists>s a. p = (a, s) \<and> (s, a) \<in> P \<and> legal_move g s a \<and> target g s a = t)"
    using 4 [rule_format, of t p] by simp
qed

lemma constructed_transition:
  assumes init: "GridWorldMDP_init h rows' cols' rd gs d eu aw dd = Inr (m, h')"
    and s: "0 \<le> s" "s < rows m * cols m" and a: "0 \<le> a" "a < num_actions"
  shows "cached_transition m s a = Inr (target m s a)"
proof -
  let ?g = "\<lparr>rows = rows', cols = cols', disallow_diag = dd\<rparr>"
  from init obtain tb where f: "rows m = rows'" "cols m = cols'" "disallow_diag m = dd"
    "transition_cached m = t_transition_cached tb"
    and inv: "tables_inv ?g rd d
       ({s. 0 \<le> s \<and> s < rows' * cols'} \<times> {a. 0 \<le> a \<and> a < num_actions}) tb"
    by (rule init_constructed)
  have t: "target m s a = target ?g s a" by (rule grid_cong) (simp_all add: f)
  have sh: "nrows (t_transition_cached tb) = nat (rows' * cols')" "ncols (t_transition_cached tb) = 9"
    using inv by (simp_all add: tables_inv_def tables_shape_def)
  have "cell (t_transition_cached tb) (nat s) (nat a) = target ?g s a"
    using inv s a f by (simp add: tables_inv_def)
  moreover have "getitem2 (t_transition_cached tb) s a = Inr (cell (t_transition_cached tb) (nat s) (nat a))"
    using s a sh f by (intro getitem2_ok) (simp_all add: num_actions_def)
  ultimately show ?thesis by (simp add: cached_transition_def f t)
qed

lemma decode_target:
  assumes "0 < rows m" "0 < cols m" "0 \<le> s" "s < rows m * cols m" "legal_move m s a"
  shows "state_to_coor m (target m s a) = Inr (candidate m s a)"
proof -
  from assms(5) have c: "0 \<le> fst (candidate m s a)" "fst (candidate m s a) < rows m"
    "0 \<le> snd (candidate m s a)" "snd (candidate m s a) < cols m"
    by (simp_all add: legal_move_def)
  have "fst (candidate m s a) * cols m + snd (candidate m s a) < rows m * cols m"
    using c assms(2) by (simp add: encode_bound)
  then show ?thesis using assms c by (simp add: target_def state_to_coor_ok)
qed

text \<open>
  Claim C1. In a constructed engine, for every state \<open>s\<close> in \<open>[0, rows * cols)\<close> and
  every action \<open>a\<close> of the nine: the move is legal exactly when the coordinate of \<open>s\<close>
  plus the offset of \<open>a\<close> is inside the grid and \<open>a\<close> is not a diagonal action under
  \<^verbatim>\<open>disallow_diag\<close>; the helper and the cached transition agree on the resulting state
  \<open>s'\<close>, and the helper's flag is the negation of legality; if the move is legal the
  coordinate of \<open>s'\<close> is that of \<open>s\<close> plus the offset, and if it is illegal \<open>s' = s\<close>.
\<close>

theorem transition_offset_or_stay:
  assumes "GridWorldMDP_init h rows' cols' rd gs d eu aw dd = Inr (m, h')"
    and "0 \<le> s" "s < rows m * cols m" "0 \<le> a" "a < num_actions"
  shows "\<exists>r c s'. state_to_coor m s = Inr (r, c)
      \<and> legal_move m s a
          = (0 \<le> r + fst (offset a) \<and> r + fst (offset a) < rows m
             \<and> 0 \<le> c + snd (offset a) \<and> c + snd (offset a) < cols m
             \<and> \<not> (disallow_diag m \<and> a \<in> set diagonal_actions))
      \<and> transition_helper m s a = Inr (s', \<not> legal_move m s a)
      \<and> cached_transition m s a = Inr s'
      \<and> (legal_move m s a \<longrightarrow> state_to_coor m s' = Inr (r + fst (offset a), c + snd (offset a)))
      \<and> (\<not> legal_move m s a \<longrightarrow> s' = s)"
proof -
  from assms(1) have pos: "0 < rows m" "0 < cols m"
    by (auto elim: init_constructed)
  have 1: "state_to_coor m s = Inr (s div cols m, s mod cols m)"
    using pos assms by (simp add: state_to_coor_ok)
  have 2: "transition_helper m s a = Inr (target m s a, \<not> legal_move m s a)"
    using pos assms(2-5) by (rule transition_helper_eq)
  have 3: "cached_transition m s a = Inr (target m s a)"
    using assms by (rule constructed_transition)
  have 4: "state_to_coor m (target m s a)
           = Inr (s div cols m + fst (offset a), s mod cols m + snd (offset a))" if "legal_move m s a"
    using decode_target [OF pos assms(2,3) that] by (simp add: candidate_def)
  have 5: "target m s a = s" if "\<not> legal_move m s a"
    using that by (simp add: target_def)
  show ?thesis
    apply (rule exI [of _ "s div cols m"], rule exI [of _ "s mod cols m"], rule exI [of _ "target m s a"])
    using 1 2 3 4 5 by (simp add: legal_move_def candidate_def)
qed

theorem transition_offset_or_stay_witness:
  "\<exists>m h'. GridWorldMDP_init [] 2 2 [] (Some 0) (Fin (- 1)) True False True = Inr (m, h')
     \<and> (\<exists>s'. transition_helper m 0 RIGHT = Inr (s', False)
            \<and> cached_transition m 0 RIGHT = Inr s'
            \<and> state_to_coor m s' = Inr (1, 0))
     \<and> transition_helper m 0 LEFT = Inr (0, True)
     \<and> cached_transition m 0 LEFT = Inr 0
     \<and> transition_helper m 0 UP_RIGHT = Inr (0, True)"
proof -
  obtain m h' where i: "GridWorldMDP_init [] 2 2 [] (Some 0) (Fin (- 1)) True False True = Inr (m, h')"
    using init_succeeds [of 2 2 "[]" "Some 0" "[]" "Fin (- 1)" True False True] by auto
  then have f: "rows m = 2" "cols m = 2" "disallow_diag m = True"
    by (auto elim: init_constructed)
  have l: "legal_move m 0 RIGHT" "\<not> legal_move m 0 LEFT" "\<not> legal_move m 0 UP_RIGHT"
    by (simp_all add: legal_move_def candidate_def offset_def f action_defs)
  have o: "offset RIGHT = (1, 0)" by (simp add: offset_def action_defs)
  have d: "state_to_coor m 0 = Inr (0, 0)" by (simp add: state_to_coor_def f)
  have a: "0 \<le> RIGHT" "RIGHT < num_actions" "0 \<le> LEFT" "LEFT < num_actions"
    "0 \<le> UP_RIGHT" "UP_RIGHT < num_actions" by (simp_all add: action_defs)
  have s: "(0::int) \<le> 0" "0 < rows m * cols m" by (simp_all add: f)
  from transition_offset_or_stay [OF i s a(1,2)] l(1)
  have 1: "\<exists>s'. transition_helper m 0 RIGHT = Inr (s', False)
            \<and> cached_transition m 0 RIGHT = Inr s'
            \<and> state_to_coor m s' = Inr (1, 0)"
    by (auto simp: d o)
  from transition_offset_or_stay [OF i s a(3,4)] l(2)
  have 2: "transition_helper m 0 LEFT = Inr (0, True) \<and> cached_transition m 0 LEFT = Inr 0"
    by (auto simp: d)
  from transition_offset_or_stay [OF i s a(5,6)] l(3)
  have 3: "transition_helper m 0 UP_RIGHT = Inr (0, True)"
    by (auto simp: d)
  from i 1 2 3 show ?thesis by blast
qed


lemma constructed_neighbors:
  assumes init: "GridWorldMDP_init h rows' cols' rd gs d eu aw dd = Inr (m, h')"
    and s: "0 \<le> s" "s < rows m * cols m"
  shows "list_getitem (neighbors m) s = Inr (neighbors m ! nat s)"
    and "p \<in> set (neighbors m ! nat s) \<longleftrightarrow>
           (\<exists>a. p = (a, target m s a) \<and> 0 \<le> a \<and> a < num_actions \<and> legal_move m s a)"
    and "list_getitem (reverse_neighbors m) s = Inr (reverse_neighbors m ! nat s)"
    and "p \<in> set (reverse_neighbors m ! nat s) \<longleftrightarrow>
           (\<exists>s0 a. p = (a, s0) \<and> 0 \<le> s0 \<and> s0 < rows m * cols m \<and> 0 \<le> a \<and> a < num_actions
                  \<and> legal_move m s0 a \<and> target m s0 a = s)"
    and "length (neighbors m) = nat (rows m * cols m)"
    and "length (reverse_neighbors m) = nat (rows m * cols m)"
proof -
  let ?g = "\<lparr>rows = rows', cols = cols', disallow_diag = dd\<rparr>"
  from init obtain tb where f: "rows m = rows'" "cols m = cols'" "disallow_diag m = dd"
    "neighbors m = t_neighbors tb" "reverse_neighbors m = t_reverse_neighbors tb"
    and inv: "tables_inv ?g rd d
       ({s. 0 \<le> s \<and> s < rows' * cols'} \<times> {a. 0 \<le> a \<and> a < num_actions}) tb"
    by (rule init_constructed)
  have c: "legal_move m s0 a = legal_move ?g s0 a" "target m s0 a = target ?g s0 a" for s0 a
    by (rule grid_cong; simp add: f)+
  have len: "length (t_neighbors tb) = nat (rows' * cols')"
    "length (t_reverse_neighbors tb) = nat (rows' * cols')"
    using inv by (simp_all add: tables_inv_def tables_shape_def)
  show "length (neighbors m) = nat (rows m * cols m)"
    "length (reverse_neighbors m) = nat (rows m * cols m)"
    by (simp_all add: f len)
  show "list_getitem (neighbors m) s = Inr (neighbors m ! nat s)"
    using s len f by (simp add: list_getitem_def py_index_in_range)
  show "list_getitem (reverse_neighbors m) s = Inr (reverse_neighbors m ! nat s)"
    using s len f by (simp add: list_getitem_def py_index_in_range)
  have s': "0 \<le> s" "s < rows ?g * cols ?g" using s f by simp_all
  from tables_invD(4) [OF inv s', of p] have "(p \<in> set (t_neighbors tb ! nat s))
      = (\<exists>a. p = (a, target ?g s a)
           \<and> (s, a) \<in> {s. 0 \<le> s \<and> s < rows' * cols'} \<times> {a. 0 \<le> a \<and> a < num_actions}
           \<and> legal_move ?g s a)" .
  then show "p \<in> set (neighbors m ! nat s) \<longleftrightarrow>
           (\<exists>a. p = (a, target m s a) \<and> 0 \<le> a \<and> a < num_actions \<and> legal_move m s a)"
    using s f by (auto simp: c)
  from tables_invD(5) [OF inv s', of p] have "(p \<in> set (t_reverse_neighbors tb ! nat s))
      = (\<exists>s0 a. p = (a, s0)
           \<and> (s0, a) \<in> {s. 0 \<le> s \<and> s < rows' * cols'} \<times> {a. 0 \<le> a \<and> a < num_actions}
           \<and> legal_move ?g s0 a \<and> target ?g s0 a = s)" .
  then show "p \<in> set (reverse_neighbors m ! nat s) \<longleftrightarrow>
           (\<exists>s0 a. p = (a, s0) \<and> 0 \<le> s0 \<and> s0 < rows m * cols m \<and> 0 \<le> a \<and> a < num_actions
                  \<and> legal_move m s0 a \<and> target m s0 a = s)"
    using f by (auto simp: c)
qed

lemma constructed_reward_defined:
  assumes init: "GridWorldMDP_init h rows' cols' rd gs d eu aw dd = Inr (m, h')"
    and s: "0 \<le> s" "s < rows m * cols m" and a: "0 \<le> a" "a < num_actions"
  shows "getitem2 (h' ! rewards (base m)) s a = Inr (cell (h' ! rewards (base m)) (nat s) (nat a))"
proof -
  from init have f: "rows m = rows'" "cols m = cols'" "rewards (base m) = length h"
    "nrows (h' ! length h) = nat (rows' * cols')" "ncols (h' ! length h) = 9"
    by (auto elim: init_constructed)
  show ?thesis using s a f by (intro getitem2_ok) (simp_all add: num_actions_def)
qed

text \<open>
  Claim C3. In a constructed engine, for every state \<open>s\<close> and action \<open>a\<close>, with
  \<open>s'\<close> the transition of \<open>(s, a)\<close>: the pair \<open>(a, s')\<close> is in the forward list of \<open>s\<close>
  exactly when the move is legal, and \<open>(a, s)\<close> is in the reverse list of \<open>s'\<close> exactly
  when the move is legal. For an illegal move no pair with action \<open>a\<close> is in the forward
  list of \<open>s\<close> and \<open>(a, s)\<close> is in no reverse list at all, while the reward table still
  has an entry for \<open>(s, a)\<close>.
\<close>

theorem adjacency_iff_legal:
  assumes "GridWorldMDP_init h rows' cols' rd gs d eu aw dd = Inr (m, h')"
    and "0 \<le> s" "s < rows m * cols m" "0 \<le> a" "a < num_actions"
  shows "\<exists>s' fwd rev. cached_transition m s a = Inr s'
     \<and> list_getitem (neighbors m) s = Inr fwd
     \<and> list_getitem (reverse_neighbors m) s' = Inr rev
     \<and> ((a, s') \<in> set fwd \<longleftrightarrow> legal_move m s a)
     \<and> ((a, s) \<in> set rev \<longleftrightarrow> legal_move m s a)
     \<and> (\<not> legal_move m s a \<longrightarrow>
           (\<forall>t. (a, t) \<notin> set fwd) \<and> (\<forall>rs \<in> set (reverse_neighbors m). (a, s) \<notin> set rs))
     \<and> (\<exists>v. getitem2 (h' ! rewards (base m)) s a = Inr v)"
proof -
  from assms(1) have pos: "0 < rows m" "0 < cols m"
    by (auto elim: init_constructed)
  let ?t = "target m s a"
  have tr: "0 \<le> ?t" "?t < rows m * cols m"
    using target_range [OF pos(2) assms(2,3)] by simp_all
  note n = constructed_neighbors [OF assms(1) assms(2,3)]
  note r = constructed_neighbors [OF assms(1) tr]
  have 1: "cached_transition m s a = Inr ?t" using assms by (rule constructed_transition)
  have 2: "(a, ?t) \<in> set (neighbors m ! nat s) \<longleftrightarrow> legal_move m s a"
    using assms(4,5) by (auto simp: n(2))
  have 3: "(a, s) \<in> set (reverse_neighbors m ! nat ?t) \<longleftrightarrow> legal_move m s a"
    using assms(2-5) by (auto simp: r(4))
  have 4: "(a, t) \<notin> set (neighbors m ! nat s)" if "\<not> legal_move m s a" for t
    using that by (auto simp: n(2))
  have 5: "(a, s) \<notin> set rs" if nl: "\<not> legal_move m s a" and rs: "rs \<in> set (reverse_neighbors m)" for rs
  proof -
    from rs obtain k where k: "k < length (reverse_neighbors m)" "rs = reverse_neighbors m ! k"
      by (auto simp: in_set_conv_nth)
    then have kk: "0 \<le> int k" "int k < rows m * cols m" using n(6) by simp_all
    from constructed_neighbors(4) [OF assms(1) kk, of "(a, s)"] nl
    show ?thesis by (simp add: k(2))
  qed
  have 6: "\<exists>v. getitem2 (h' ! rewards (base m)) s a = Inr v"
    using constructed_reward_defined [OF assms] by blast
  show ?thesis
    apply (rule exI [of _ ?t], rule exI [of _ "neighbors m ! nat s"],
        rule exI [of _ "reverse_neighbors m ! nat ?t"])
    using 1 2 3 4 5 6 n(1) r(3) by simp
qed

theorem adjacency_iff_legal_witness:
  "\<exists>m h'. GridWorldMDP_init [] 2 2 [] (Some 0) (Fin (- 1)) True False True = Inr (m, h')
     \<and> (\<exists>s' fwd rev. cached_transition m 0 RIGHT = Inr s'
           \<and> list_getitem (neighbors m) 0 = Inr fwd
           \<and> list_getitem (reverse_neighbors m) s' = Inr rev
           \<and> (RIGHT, s') \<in> set fwd \<and> (RIGHT, 0) \<in> set rev)
     \<and> (\<exists>s' fwd rev. cached_transition m 0 UP_RIGHT = Inr s'
           \<and> list_getitem (neighbors m) 0 = Inr fwd
           \<and> list_getitem (reverse_neighbors m) s' = Inr rev
           \<and> (UP_RIGHT, s') \<notin> set fwd \<and> (UP_RIGHT, 0) \<notin> set rev
           \<and> (\<exists>v. getitem2 (h' ! rewards (base m)) 0 UP_RIGHT = Inr v))"
proof -
  obtain m h' where i: "GridWorldMDP_init [] 2 2 [] (Some 0) (Fin (- 1)) True False True = Inr (m, h')"
    using init_succeeds [of 2 2 "[]" "Some 0" "[]" "Fin (- 1)" True False True] by auto
  then have f: "rows m = 2" "cols m = 2" "disallow_diag m = True"
    by (auto elim: init_constructed)
  have l: "legal_move m 0 RIGHT" "\<not> legal_move m 0 UP_RIGHT"
    by (simp_all add: legal_move_def candidate_def offset_def f action_defs)
  have a: "0 \<le> RIGHT" "RIGHT < num_actions" "0 \<le> UP_RIGHT" "UP_RIGHT < num_actions"
    by (simp_all add: action_defs)
  have s: "(0::int) \<le> 0" "0 < rows m * cols m" by (simp_all add: f)
  from adjacency_iff_legal [OF i s a(1,2)] l(1)
  have 1: "\<exists>s' fwd rev. cached_transition m 0 RIGHT = Inr s'
           \<and> list_getitem (neighbors m) 0 = Inr fwd
           \<and> list_getitem (reverse_neighbors m) s' = Inr rev
           \<and> (RIGHT, s') \<in> set fwd \<and> (RIGHT, 0) \<in> set rev"
    by fastforce
  from adjacency_iff_legal [OF i s a(3,4)] l(2)
  have 2: "\<exists>s' fwd rev. cached_transition m 0 UP_RIGHT = Inr s'
           \<and> list_getitem (neighbors m) 0 = Inr fwd
           \<and> list_getitem (reverse_neighbors m) s' = Inr rev
           \<and> (UP_RIGHT, s') \<notin> set fwd \<and> (UP_RIGHT, 0) \<notin> set rev
           \<and> (\<exists>v. getitem2 (h' ! rewards (base m)) 0 UP_RIGHT = Inr v)"
    by fastforce
  from i 1 2 show ?thesis by blast
qed

lemma legal_absorb:
  assumes "0 < cols m" "0 \<le> s" "s < rows m * cols m"
  shows "legal_move m s ABSORB" "target m s ABSORB = s"
proof -
  note b = div_bounds [OF assms]
  show l: "legal_move m s ABSORB"
    using b by (simp add: legal_move_def candidate_def offset_def action_defs)
  show "target m s ABSORB = s"
    using l by (simp add: target_def candidate_def offset_def action_defs)
qed

text \<open>
  Claim C10. The helper never flags \<^verbatim>\<open>ABSORB\<close> illegal: in a constructed engine, for
  every state \<open>s\<close>, whatever the goal, \<^verbatim>\<open>allow_wait\<close> and \<^verbatim>\<open>disallow_diag\<close> given to
  the constructor, the transition of \<open>(s, ABSORB)\<close> is \<open>s\<close> and the pair \<open>(ABSORB, s)\<close>
  is in the forward and in the reverse adjacency list of \<open>s\<close>; a later
  \<^verbatim>\<open>set_goal\<close> leaves both lists and the transition as they are.
\<close>

theorem absorb_always_adjacent:
  assumes "GridWorldMDP_init h rows' cols' rd gs d eu aw dd = Inr (m, h')"
    and "0 \<le> s" "s < rows m * cols m"
  shows "transition_helper m s ABSORB = Inr (s, False)
     \<and> cached_transition m s ABSORB = Inr s
     \<and> (\<exists>fwd rev. list_getitem (neighbors m) s = Inr fwd
           \<and> list_getitem (reverse_neighbors m) s = Inr rev
           \<and> (ABSORB, s) \<in> set fwd \<and> (ABSORB, s) \<in> set rev)
     \<and> (\<forall>g m2 h2. set_goal h' m g = Inr (m2, h2) \<longrightarrow>
           neighbors m2 = neighbors m \<and> reverse_neighbors m2 = reverse_neighbors m
           \<and> cached_transition m2 s ABSORB = Inr s)"
proof -
  from assms(1) have pos: "0 < rows m" "0 < cols m"
    by (auto elim: init_constructed)
  note la = legal_absorb [OF pos(2) assms(2,3)]
  have a: "0 \<le> ABSORB" "ABSORB < num_actions" by (simp_all add: action_defs)
  have 1: "transition_helper m s ABSORB = Inr (s, False)"
    using transition_helper_eq [OF pos assms(2,3) a] la by simp
  have 2: "cached_transition m s ABSORB = Inr s"
    using constructed_transition [OF assms a] la by simp
  note n = constructed_neighbors [OF assms]
  have 3: "(ABSORB, s) \<in> set (neighbors m ! nat s)"
    using la a by (auto simp: n(2))
  have 4: "(ABSORB, s) \<in> set (reverse_neighbors m ! nat s)"
    using la a assms(2,3) by (auto simp: n(4))
  have 5: "neighbors m2 = neighbors m \<and> reverse_neighbors m2 = reverse_neighbors m
           \<and> cached_transition m2 s ABSORB = Inr s"
    if "set_goal h' m g = Inr (m2, h2)" for g m2 h2
    using set_goal_frame(1) [OF that] 2 by (simp add: cached_transition_def)
  show ?thesis using 1 2 3 4 5 n(1,3) by blast
qed


lemma times_sqrt2_NegInf: "times_sqrt2 NegInf = NegInf"
  by (simp add: times_sqrt2_def)

lemma diagonal_iff: "0 \<le> a \<Longrightarrow> a \<in> set diagonal_actions \<longleftrightarrow> 4 \<le> nat a \<and> nat a \<le> 7"
  by (auto simp: action_defs)

lemma constructed_tables_rewards:
  assumes init: "GridWorldMDP_init h rows' cols' rd gs d eu aw dd = Inr (m, h')"
    and s: "0 \<le> s" "s < rows m * cols m" and a: "0 \<le> a" "a < num_actions"
  shows "\<exists>tb rw. build_tables \<lparr>rows = rows', cols = cols', disallow_diag = dd\<rparr> rd d = Inr tb
      \<and> (if eu then scale_diagonals (t_rewards tb) else Inr (t_rewards tb)) = Inr rw
      \<and> getitem2 (t_rewards tb) s a = Inr (assigned_reward m rd d s a)
      \<and> getitem2 rw s a
          = Inr (if eu \<and> a \<in> set diagonal_actions then times_sqrt2 (assigned_reward m rd d s a)
                 else assigned_reward m rd d s a)
      \<and> (a \<noteq> ABSORB \<longrightarrow> getitem2 (h' ! rewards (base m)) s a = getitem2 rw s a)"
proof -
  let ?g = "\<lparr>rows = rows', cols = cols', disallow_diag = dd\<rparr>"
  from init obtain tb rw where f: "rows m = rows'" "cols m = cols'" "disallow_diag m = dd"
    "rewards (base m) = length h"
    and bt: "build_tables ?g rd d = Inr tb"
    and inv: "tables_inv ?g rd d
       ({s. 0 \<le> s \<and> s < rows' * cols'} \<times> {a. 0 \<le> a \<and> a < num_actions}) tb"
    and rw: "(if eu then scale_diagonals (t_rewards tb) else Inr (t_rewards tb)) = Inr rw"
    and fin: "nrows (h' ! length h) = nat (rows' * cols')" "ncols (h' ! length h) = 9"
      "\<forall>i k. k \<noteq> 8 \<longrightarrow> cell (h' ! length h) i k = cell rw i k"
    by (rule init_constructed)
  have c: "assigned_reward m rd d s a = assigned_reward ?g rd d s a"
    by (rule grid_cong) (simp_all add: f)
  have sh: "nrows (t_rewards tb) = nat (rows' * cols')" "ncols (t_rewards tb) = 9"
    using tables_invD(1) [OF inv] by (simp_all add: tables_shape_def)
  have cell0: "cell (t_rewards tb) (nat s) (nat a) = assigned_reward ?g rd d s a"
    using tables_invD(3) [OF inv s(1) a(1)] s a f by simp
  have g0: "getitem2 (t_rewards tb) s a = Inr (assigned_reward m rd d s a)"
    using s a f sh cell0 c by (simp add: getitem2_ok num_actions_def)
  have rwp: "nrows rw = nat (rows' * cols')" "ncols rw = 9"
    "cell rw (nat s) (nat a)
       = (if eu \<and> a \<in> set diagonal_actions then times_sqrt2 (assigned_reward ?g rd d s a)
          else assigned_reward ?g rd d s a)"
    using rw scale_diagonals_ok [OF sh(2)] sh cell0 diagonal_iff [OF a(1)]
    by (cases eu; auto)+
  have g1: "getitem2 rw s a
          = Inr (if eu \<and> a \<in> set diagonal_actions then times_sqrt2 (assigned_reward m rd d s a)
                 else assigned_reward m rd d s a)"
    using s a f rwp c by (simp add: getitem2_ok num_actions_def)
  have g2: "getitem2 (h' ! rewards (base m)) s a = getitem2 rw s a" if "a \<noteq> ABSORB"
  proof -
    have "nat a \<noteq> 8" using that a by (simp add: ABSORB_def)
    then show ?thesis
      using s a f fin rwp(1,2) by (simp add: getitem2_ok num_actions_def)
  qed
  from bt rw g0 g1 g2 show ?thesis by blast
qed

text \<open>
  Claim C2. For every state and action of a constructed engine, the table the double loop
  leaves (before the scaling and before \<^verbatim>\<open>set_goal\<close>) holds negative infinity when the
  move is illegal, whatever \<^verbatim>\<open>reward_dict\<close> contains, and otherwise the entry of
  \<^verbatim>\<open>reward_dict\<close> at the coordinate of the resulting state when there is one, else the
  default reward. In the final table an illegal move still has reward negative infinity.
\<close>

theorem reward_assignment:
  assumes "GridWorldMDP_init h rows' cols' rd gs d eu aw dd = Inr (m, h')"
    and "0 \<le> s" "s < rows m * cols m" "0 \<le> a" "a < num_actions"
  shows "\<exists>tb s' coor. build_tables \<lparr>rows = rows', cols = cols', disallow_diag = dd\<rparr> rd d = Inr tb
      \<and> cached_transition m s a = Inr s' \<and> state_to_coor m s' = Inr coor
      \<and> getitem2 (t_rewards tb) s a
          = Inr (if \<not> legal_move m s a then NegInf
                 else case map_of rd coor of Some v \<Rightarrow> v | None \<Rightarrow> d)
      \<and> (\<not> legal_move m s a \<longrightarrow> getitem2 (h' ! rewards (base m)) s a = Inr NegInf)"
proof -
  from assms(1) have pos: "0 < rows m" "0 < cols m"
    by (auto elim: init_constructed)
  let ?t = "target m s a"
  have tr: "0 \<le> ?t" "?t < rows m * cols m"
    using target_range [OF pos(2) assms(2,3)] by simp_all
  have 1: "cached_transition m s a = Inr ?t" using assms by (rule constructed_transition)
  have 2: "state_to_coor m ?t = Inr (?t div cols m, ?t mod cols m)"
    using pos tr by (simp add: state_to_coor_ok)
  from constructed_tables_rewards [OF assms] obtain tb rw where
    bt: "build_tables \<lparr>rows = rows', cols = cols', disallow_diag = dd\<rparr> rd d = Inr tb"
    and g0: "getitem2 (t_rewards tb) s a = Inr (assigned_reward m rd d s a)"
    and g1: "getitem2 rw s a
          = Inr (if eu \<and> a \<in> set diagonal_actions then times_sqrt2 (assigned_reward m rd d s a)
                 else assigned_reward m rd d s a)"
    and g2: "a \<noteq> ABSORB \<longrightarrow> getitem2 (h' ! rewards (base m)) s a = getitem2 rw s a"
    by blast
  have 3: "getitem2 (t_rewards tb) s a
          = Inr (if \<not> legal_move m s a then NegInf
                 else case map_of rd (?t div cols m, ?t mod cols m) of Some v \<Rightarrow> v | None \<Rightarrow> d)"
    using g0 by (simp add: assigned_reward_def)
  have 4: "getitem2 (h' ! rewards (base m)) s a = Inr NegInf" if "\<not> legal_move m s a"
  proof -
    have "a \<noteq> ABSORB" using that legal_absorb(1) [OF pos(2) assms(2,3)] by auto
    with g2 g1 that show ?thesis by (simp add: assigned_reward_def times_sqrt2_NegInf)
  qed
  from bt 1 2 3 4 show ?thesis by blast
qed

text \<open>
  Claim C5. When \<^verbatim>\<open>euclidean_rewards\<close> is true, with \<open>v\<close> the reward the loop assigned
  to \<open>(s, a)\<close>: for a diagonal action the scaled table and the final table hold
  \<open>times_sqrt2 v\<close>, which is \<open>x * sqrt 2\<close> for a finite \<open>x\<close> and negative infinity for
  negative infinity; for any other action the scaling leaves \<open>v\<close> as it is, and the final
  table holds \<open>v\<close> in every column that is neither diagonal nor \<^verbatim>\<open>ABSORB\<close> (the
  \<^verbatim>\<open>ABSORB\<close> column is rewritten by \<^verbatim>\<open>set_goal\<close>, not by the scaling).
\<close>

theorem euclidean_scaling:
  assumes "GridWorldMDP_init h rows' cols' rd gs d True aw dd = Inr (m, h')"
    and "0 \<le> s" "s < rows m * cols m" "0 \<le> a" "a < num_actions"
  shows "\<exists>tb scaled v. build_tables \<lparr>rows = rows', cols = cols', disallow_diag = dd\<rparr> rd d = Inr tb
      \<and> scale_diagonals (t_rewards tb) = Inr scaled
      \<and> getitem2 (t_rewards tb) s a = Inr v \<and> v = assigned_reward m rd d s a
      \<and> (a \<in> set diagonal_actions \<longrightarrow>
            getitem2 scaled s a = Inr (times_sqrt2 v)
            \<and> getitem2 (h' ! rewards (base m)) s a = Inr (times_sqrt2 v))
      \<and> (a \<notin> set diagonal_actions \<longrightarrow> getitem2 scaled s a = Inr v)
      \<and> (a \<notin> set diagonal_actions \<and> a \<noteq> ABSORB \<longrightarrow>
            getitem2 (h' ! rewards (base m)) s a = Inr v)
      \<and> times_sqrt2 NegInf = NegInf
      \<and> (\<forall>x. times_sqrt2 (Fin x) = Fin (x * sqrt 2))"
proof -
  from constructed_tables_rewards [OF assms] obtain tb rw where
    bt: "build_tables \<lparr>rows = rows', cols = cols', disallow_diag = dd\<rparr> rd d = Inr tb"
    and rw: "scale_diagonals (t_rewards tb) = Inr rw"
    and g0: "getitem2 (t_rewards tb) s a = Inr (assigned_reward m rd d s a)"
    and g1: "getitem2 rw s a
          = Inr (if a \<in> set diagonal_actions then times_sqrt2 (assigned_reward m rd d s a)
                 else assigned_reward m rd d s a)"
    and g2: "a \<noteq> ABSORB \<longrightarrow> getitem2 (h' ! rewards (base m)) s a = getitem2 rw s a"
    by auto
  have na: "a \<noteq> ABSORB" if "a \<in> set diagonal_actions"
    using that by (auto simp: action_defs)
  have t: "\<forall>x. times_sqrt2 (Fin x) = Fin (x * sqrt 2)" by (simp add: times_sqrt2_def)
  from bt rw g0 g1 g2 na t times_sqrt2_NegInf show ?thesis
    by (intro exI [of _ tb] exI [of _ rw] exI [of _ "assigned_reward m rd d s a"]) auto
qed

lemma constructed_absorb_column:
  assumes init: "GridWorldMDP_init h rows' cols' rd gs d eu aw dd = Inr (m, h')"
    and gs: "gs = None \<or> (\<exists>g. gs = Some g \<and> 0 \<le> g \<and> g < rows' * cols')"
    and s: "0 \<le> s" "s < rows m * cols m"
  shows "getitem2 (h' ! rewards (base m)) s ABSORB
         = Inr (if gs = Some s then Fin 0 else if aw then d else NegInf)"
proof -
  from init_Inr_ex [OF init] obtain tb rw sr where
    pos: "0 < rows'" "0 < cols'"
    and bt: "build_tables \<lparr>rows = rows', cols = cols', disallow_diag = dd\<rparr> rd d = Inr tb"
    and rw: "(if eu then scale_diagonals (t_rewards tb) else Inr (t_rewards tb)) = Inr rw"
    and shp: "int (nrows rw) = rows' * cols'" "int (ncols rw) = num_actions"
    and sg: "set_goal (h @ [rw])
        \<lparr>rows = rows', cols = cols', disallow_diag = dd,
         default_reward = d, allow_wait = aw,
         neighbors = t_neighbors tb,
         reverse_neighbors = t_reverse_neighbors tb,
         transition_cached = t_transition_cached tb,
         transition_cached_l = t_transition_cached_l tb,
         transition_cached_t = t_transition_cached_l tb,
         base = \<lparr>S = IntV (rows' * cols'), A = IntV num_actions, rewards = length h,
                 transition = FunV (getitem2 (t_transition_cached tb))\<rparr>,
         state_rewards = sr, goal = None\<rparr> gs = Inr (m, h')"
    by blast
  from init have f: "rows m = rows'" "cols m = cols'" "rewards (base m) = length h"
    "nrows (h' ! length h) = nat (rows' * cols')" "ncols (h' ! length h) = 9"
    by (auto elim: init_constructed)
  have nc: "ncols rw = 9" using shp(2) by (simp add: num_actions_def)
  have g: "getitem2 (h' ! rewards (base m)) s ABSORB = Inr (cell (h' ! length h) (nat s) 8)"
    using s f by (simp add: getitem2_ok ABSORB_def)
  show ?thesis
  proof (cases gs)
    case None
    from sg [unfolded None] set_goal_None_ok [of "h @ [rw]" _] nc
    have "cell (h' ! length h) (nat s) 8 = (if aw then d else NegInf)"
      by auto
    with g None show ?thesis by simp
  next
    case (Some gl)
    with gs have gl: "0 \<le> gl" "gl < rows' * cols'" by auto
    from sg [unfolded Some] set_goal_Some_ok [of "h @ [rw]" _ gl] nc gl shp(1)
    have "cell (h' ! length h) (nat s) 8
          = (if nat s = nat gl then Fin 0 else if aw then d else NegInf)"
      by auto
    with g Some gl s show ?thesis by (simp add: eq_nat_nat_iff)
  qed
qed


theorem absorb_always_adjacent_witness:
  "\<exists>m h'. GridWorldMDP_init [] 2 2 [] (Some 0) (Fin (- 1)) True False True = Inr (m, h')
     \<and> transition_helper m 1 ABSORB = Inr (1, False)
     \<and> cached_transition m 1 ABSORB = Inr 1
     \<and> (\<exists>fwd rev. list_getitem (neighbors m) 1 = Inr fwd
           \<and> list_getitem (reverse_neighbors m) 1 = Inr rev
           \<and> (ABSORB, 1) \<in> set fwd \<and> (ABSORB, 1) \<in> set rev)
     \<and> getitem2 (h' ! rewards (base m)) 1 ABSORB = Inr NegInf"
proof -
  obtain m h' where i: "GridWorldMDP_init [] 2 2 [] (Some 0) (Fin (- 1)) True False True = Inr (m, h')"
    using init_succeeds [of 2 2 "[]" "Some 0" "[]" "Fin (- 1)" True False True] by auto
  then have f: "rows m = 2" "cols m = 2" "disallow_diag m = True"
    by (auto elim: init_constructed)
  have s: "(0::int) \<le> 1" "1 < rows m * cols m" by (simp_all add: f)
  have "getitem2 (h' ! rewards (base m)) 1 ABSORB = Inr NegInf"
    using constructed_absorb_column [OF i _ s] by simp
  with absorb_always_adjacent [OF i s] i show ?thesis by blast
qed

theorem reward_assignment_witness:
  "\<exists>m h' tb. GridWorldMDP_init [] 1 5 [((0, 3), Fin 10)] None (Fin (- 1)) True False False = Inr (m, h')
     \<and> build_tables \<lparr>rows = 1, cols = 5, disallow_diag = False\<rparr> [((0, 3), Fin 10)] (Fin (- 1)) = Inr tb
     \<and> getitem2 (t_rewards tb) 2 UP = Inr (Fin 10)
     \<and> getitem2 (t_rewards tb) 0 UP = Inr (Fin (- 1))
     \<and> getitem2 (t_rewards tb) 3 LEFT = Inr NegInf
     \<and> getitem2 (h' ! rewards (base m)) 3 LEFT = Inr NegInf
     \<and> getitem2 (h' ! rewards (base m)) 0 DOWN = Inr NegInf"
proof -
  let ?rd = "[((0, 3), Fin 10)] :: reward_dict"
  obtain m h' where i: "GridWorldMDP_init [] 1 5 ?rd None (Fin (- 1)) True False False = Inr (m, h')"
    using init_succeeds [of 1 5 ?rd None "[]" "Fin (- 1)" True False False] by auto
  then have f: "rows m = 1" "cols m = 5" "disallow_diag m = False"
    by (auto elim: init_constructed)
  have l: "legal_move m 2 UP" "legal_move m 0 UP" "\<not> legal_move m 3 LEFT" "\<not> legal_move m 0 DOWN"
    by (simp_all add: legal_move_def candidate_def offset_def f action_defs)
  have a: "0 \<le> UP" "UP < num_actions" "0 \<le> LEFT" "LEFT < num_actions"
    "0 \<le> DOWN" "DOWN < num_actions" by (simp_all add: action_defs)
  have s: "(0::int) \<le> 2" "2 < rows m * cols m" "(0::int) \<le> 0" "0 < rows m * cols m"
    "(0::int) \<le> 3" "3 < rows m * cols m" by (simp_all add: f)
  have t: "cached_transition m 2 UP = Inr 3" "cached_transition m 0 UP = Inr 1"
    using constructed_transition [OF i s(1,2) a(1,2)] constructed_transition [OF i s(3,4) a(1,2)] l
    by (simp_all add: target_def candidate_def offset_def f action_defs)
  have c: "state_to_coor m 3 = Inr (0, 3)" "state_to_coor m 1 = Inr (0, 1)"
    by (simp_all add: state_to_coor_def f)
  from reward_assignment [OF i s(1,2) a(1,2)] reward_assignment [OF i s(3,4) a(1,2)]
    reward_assignment [OF i s(5,6) a(3,4)] reward_assignment [OF i s(3,4) a(5,6)] l t c i
  show ?thesis by auto
qed

theorem euclidean_scaling_witness:
  "\<exists>m h'. GridWorldMDP_init [] 2 2 [((1, 1), Fin 10)] None (Fin (- 1)) True False False = Inr (m, h')
     \<and> getitem2 (h' ! rewards (base m)) 0 UP_RIGHT = Inr (Fin (10 * sqrt 2))
     \<and> getitem2 (h' ! rewards (base m)) 0 UP_LEFT = Inr NegInf
     \<and> getitem2 (h' ! rewards (base m)) 0 RIGHT = Inr (Fin (- 1))"
proof -
  let ?rd = "[((1, 1), Fin 10)] :: reward_dict"
  obtain m h' where i: "GridWorldMDP_init [] 2 2 ?rd None (Fin (- 1)) True False False = Inr (m, h')"
    using init_succeeds [of 2 2 ?rd None "[]" "Fin (- 1)" True False False] by auto
  then have f: "rows m = 2" "cols m = 2" "disallow_diag m = False"
    by (auto elim: init_constructed)
  have v: "assigned_reward m ?rd (Fin (- 1)) 0 UP_RIGHT = Fin 10"
    "assigned_reward m ?rd (Fin (- 1)) 0 UP_LEFT = NegInf"
    "assigned_reward m ?rd (Fin (- 1)) 0 RIGHT = Fin (- 1)"
    by (simp_all add: assigned_reward_def target_def legal_move_def candidate_def offset_def f action_defs)
  have a: "0 \<le> UP_RIGHT" "UP_RIGHT < num_actions" "0 \<le> UP_LEFT" "UP_LEFT < num_actions"
    "0 \<le> RIGHT" "RIGHT < num_actions" by (simp_all add: action_defs)
  have s: "(0::int) \<le> 0" "0 < rows m * cols m" by (simp_all add: f)
  have d: "UP_RIGHT \<in> set diagonal_actions" "UP_LEFT \<in> set diagonal_actions"
    "RIGHT \<notin> set diagonal_actions" "RIGHT \<noteq> ABSORB" by (simp_all add: action_defs)
  from euclidean_scaling [OF i s a(1,2)] euclidean_scaling [OF i s a(3,4)]
    euclidean_scaling [OF i s a(5,6)] v d i
  show ?thesis by auto
qed

subsection \<open>Goal reconfiguration and copying\<close>

lemma set_goal_overwrites:
  assumes nc: "ncols (h ! rewards (base m)) = 9" and r: "rewards (base m) < length h"
    and g: "0 \<le> g" "g < int (nrows (h ! rewards (base m)))"
    and g': "0 \<le> g'" "g' < int (nrows (h ! rewards (base m)))"
    and 1: "set_goal h m (Some g) = Inr (m1, h1)"
  shows "set_goal h1 m1 (Some g') = set_goal h m (Some g')"
proof -
  let ?r = "rewards (base m)"
  let ?M = "h ! ?r"
  let ?v = "if allow_wait m then default_reward m else NegInf"
  let ?F = "\<lambda>g. ?M\<lparr>cell := (\<lambda>i k. if k = 8 then (if i = nat g then Fin 0 else ?v) else cell ?M i k)\<rparr>"
  from 1 set_goal_Some_ok [OF nc g]
  have m1: "m1 = m\<lparr>goal := Some g\<rparr>" and h1: "h1 = h[?r := ?F g]" by simp_all
  have b: "rewards (base m1) = ?r" "allow_wait m1 = allow_wait m" "default_reward m1 = default_reward m"
    by (simp_all add: m1)
  have M1: "h1 ! ?r = ?F g" using r by (simp add: h1)
  have sh: "ncols (h1 ! rewards (base m1)) = 9" "g' < int (nrows (h1 ! rewards (base m1)))"
    using nc g' by (simp_all add: b M1)
  have eq: "(h1 ! ?r)\<lparr>cell := (\<lambda>i k. if k = 8 then (if i = nat g' then Fin 0 else ?v)
                                     else cell (h1 ! ?r) i k)\<rparr> = ?F g'"
    unfolding M1 by (simp add: fun_eq_iff)
  have "set_goal h1 m1 (Some g')
        = Inr (m1\<lparr>goal := Some g'\<rparr>,
               h1[?r := (h1 ! ?r)\<lparr>cell := (\<lambda>i k. if k = 8 then (if i = nat g' then Fin 0 else ?v)
                                     else cell (h1 ! ?r) i k)\<rparr>])"
    using set_goal_Some_ok [OF sh(1) g'(1) sh(2)] unfolding b .
  also have "\<dots> = Inr (m\<lparr>goal := Some g'\<rparr>, h[?r := ?F g'])"
    unfolding eq by (simp add: m1 h1)
  also have "\<dots> = set_goal h m (Some g')"
    using set_goal_Some_ok [OF nc g'] by simp
  finally show ?thesis .
qed

text \<open>
  Claim C4. In a constructed engine, for every state \<open>g\<close> in \<open>[0, rows * cols)\<close>,
  \<^verbatim>\<open>set_goal(g)\<close> succeeds, and afterwards the \<^verbatim>\<open>ABSORB\<close> reward is 0 at \<open>g\<close> and, at
  every other state, the default reward when \<^verbatim>\<open>allow_wait\<close> is set and negative infinity
  otherwise. Calling it again with \<open>g\<close> changes nothing; calling it with any \<open>g'\<close> gives
  the engine and the store that \<^verbatim>\<open>set_goal(g')\<close> would have given without the first
  call, so that for \<open>g' \<noteq> g\<close> the reward at \<open>g\<close> is back to the non-goal value.
\<close>

theorem set_goal_exclusive:
  assumes "GridWorldMDP_init h0 rows' cols' rd gs d eu aw dd = Inr (m, h)"
    and "0 \<le> g" "g < rows m * cols m"
  shows "\<exists>m1 h1. set_goal h m (Some g) = Inr (m1, h1)
     \<and> goal m1 = Some g
     \<and> getitem2 (h1 ! rewards (base m1)) g ABSORB = Inr (Fin 0)
     \<and> (\<forall>s. 0 \<le> s \<and> s < rows m * cols m \<and> s \<noteq> g \<longrightarrow>
           getitem2 (h1 ! rewards (base m1)) s ABSORB
             = Inr (if allow_wait m then default_reward m else NegInf))
     \<and> set_goal h1 m1 (Some g) = Inr (m1, h1)
     \<and> (\<forall>g'. 0 \<le> g' \<and> g' < rows m * cols m \<longrightarrow>
           set_goal h1 m1 (Some g') = set_goal h m (Some g'))
     \<and> (\<forall>g'. 0 \<le> g' \<and> g' < rows m * cols m \<and> g' \<noteq> g \<longrightarrow>
           (\<exists>m2 h2. set_goal h1 m1 (Some g') = Inr (m2, h2)
              \<and> getitem2 (h2 ! rewards (base m2)) g' ABSORB = Inr (Fin 0)
              \<and> getitem2 (h2 ! rewards (base m2)) g ABSORB
                   = Inr (if allow_wait m then default_reward m else NegInf)))"
proof -
  let ?r = "rewards (base m)"
  let ?M = "h ! ?r"
  let ?v = "if allow_wait m then default_reward m else NegInf"
  let ?F = "\<lambda>g. ?M\<lparr>cell := (\<lambda>i k. if k = 8 then (if i = nat g then Fin 0 else ?v) else cell ?M i k)\<rparr>"
  from assms(1) have f: "rows m = rows'" "cols m = cols'" "?r = length h0"
    "length h = Suc (length h0)"
    "nrows (h ! length h0) = nat (rows' * cols')" "ncols (h ! length h0) = 9"
    by (auto elim: init_constructed)
  have nc: "ncols ?M = 9" and nr: "int (nrows ?M) = rows m * cols m" and r: "?r < length h"
    using f assms(2,3) by simp_all
  have ok: "set_goal h m (Some x) = Inr (m\<lparr>goal := Some x\<rparr>, h[?r := ?F x])"
    if "0 \<le> x" "x < rows m * cols m" for x
    using set_goal_Some_ok [OF nc that(1)] that(2) nr by simp
  have cellF: "getitem2 ((h[?r := ?F x]) ! ?r) s ABSORB = Inr (if s = x then Fin 0 else ?v)"
    if "0 \<le> x" "0 \<le> s" "s < rows m * cols m" for x s
    using that r nc nr by (simp add: getitem2_ok ABSORB_def eq_nat_nat_iff)
  let ?m1 = "m\<lparr>goal := Some g\<rparr>" and ?h1 = "h[?r := ?F g]"
  have 1: "set_goal h m (Some g) = Inr (?m1, ?h1)" using ok assms(2,3) by simp
  have ow: "set_goal ?h1 ?m1 (Some g') = set_goal h m (Some g')"
    if "0 \<le> g'" "g' < rows m * cols m" for g'
    using set_goal_overwrites [OF nc r assms(2) _ that(1) _ 1] assms(3) that(2) nr by simp
  have 2: "goal ?m1 = Some g" by simp
  have 3: "getitem2 (?h1 ! rewards (base ?m1)) g ABSORB = Inr (Fin 0)"
    using cellF [OF assms(2) assms(2,3)] by simp
  have 4: "getitem2 (?h1 ! rewards (base ?m1)) s ABSORB = Inr ?v"
    if "0 \<le> s \<and> s < rows m * cols m \<and> s \<noteq> g" for s
    using cellF [OF assms(2), of s] that by simp
  have 5: "set_goal ?h1 ?m1 (Some g) = Inr (?m1, ?h1)"
    using ow [OF assms(2,3)] 1 by simp
  have 6: "\<exists>m2 h2. set_goal ?h1 ?m1 (Some g') = Inr (m2, h2)
              \<and> getitem2 (h2 ! rewards (base m2)) g' ABSORB = Inr (Fin 0)
              \<and> getitem2 (h2 ! rewards (base m2)) g ABSORB = Inr ?v"
    if "0 \<le> g' \<and> g' < rows m * cols m \<and> g' \<noteq> g" for g'
  proof -
    from that have g': "0 \<le> g'" "g' < rows m * cols m" "g \<noteq> g'" by auto
    have "set_goal ?h1 ?m1 (Some g') = Inr (m\<lparr>goal := Some g'\<rparr>, h[?r := ?F g'])"
      using ow [OF g'(1,2)] ok [OF g'(1,2)] by simp
    moreover have "getitem2 ((h[?r := ?F g']) ! rewards (base (m\<lparr>goal := Some g'\<rparr>))) g' ABSORB = Inr (Fin 0)"
      using cellF [OF g'(1) g'(1,2)] by simp
    moreover have "getitem2 ((h[?r := ?F g']) ! rewards (base (m\<lparr>goal := Some g'\<rparr>))) g ABSORB = Inr ?v"
      using cellF [OF g'(1) assms(2,3)] g'(3) by simp
    ultimately show ?thesis by blast
  qed
  show ?thesis
    apply (rule exI [of _ ?m1], rule exI [of _ ?h1])
    apply (intro conjI allI impI)
    using 1 2 3 4 5 6 ow by blast+
qed


theorem set_goal_exclusive_witness:
  "\<exists>m h. GridWorldMDP_init [] 2 2 [] (Some 0) (Fin (- 1)) True False True = Inr (m, h)
     \<and> (\<exists>m1 h1. set_goal h m (Some 3) = Inr (m1, h1)
           \<and> goal m1 = Some 3
           \<and> getitem2 (h1 ! rewards (base m1)) 3 ABSORB = Inr (Fin 0)
           \<and> getitem2 (h1 ! rewards (base m1)) 0 ABSORB = Inr NegInf
           \<and> set_goal h1 m1 (Some 3) = Inr (m1, h1)
           \<and> (\<exists>m2 h2. set_goal h1 m1 (Some 1) = Inr (m2, h2)
                 \<and> getitem2 (h2 ! rewards (base m2)) 1 ABSORB = Inr (Fin 0)
                 \<and> getitem2 (h2 ! rewards (base m2)) 3 ABSORB = Inr NegInf))"
proof -
  obtain m h where i: "GridWorldMDP_init [] 2 2 [] (Some 0) (Fin (- 1)) True False True = Inr (m, h)"
    using init_succeeds [of 2 2 "[]" "Some 0" "[]" "Fin (- 1)" True False True] by auto
  then have f: "rows m = 2" "cols m = 2" "allow_wait m = False"
    by (auto elim: init_constructed)
  have s: "(0::int) \<le> 3" "3 < rows m * cols m" by (simp_all add: f)
  from set_goal_exclusive [OF i s] obtain m1 h1 where
    1: "set_goal h m (Some 3) = Inr (m1, h1)" "goal m1 = Some 3"
      "getitem2 (h1 ! rewards (base m1)) 3 ABSORB = Inr (Fin 0)"
      "set_goal h1 m1 (Some 3) = Inr (m1, h1)"
    and 2: "\<forall>s. 0 \<le> s \<and> s < rows m * cols m \<and> s \<noteq> 3 \<longrightarrow>
           getitem2 (h1 ! rewards (base m1)) s ABSORB
             = Inr (if allow_wait m then default_reward m else NegInf)"
    and 3: "\<forall>g'. 0 \<le> g' \<and> g' < rows m * cols m \<and> g' \<noteq> 3 \<longrightarrow>
           (\<exists>m2 h2. set_goal h1 m1 (Some g') = Inr (m2, h2)
              \<and> getitem2 (h2 ! rewards (base m2)) g' ABSORB = Inr (Fin 0)
              \<and> getitem2 (h2 ! rewards (base m2)) 3 ABSORB
                   = Inr (if allow_wait m then default_reward m else NegInf))"
    by blast
  from 2 [rule_format, of 0] have 4: "getitem2 (h1 ! rewards (base m1)) 0 ABSORB = Inr NegInf"
    by (simp add: f)
  from 3 [rule_format, of 1] have 5: "\<exists>m2 h2. set_goal h1 m1 (Some 1) = Inr (m2, h2)
                 \<and> getitem2 (h2 ! rewards (base m2)) 1 ABSORB = Inr (Fin 0)
                 \<and> getitem2 (h2 ! rewards (base m2)) 3 ABSORB = Inr NegInf"
    by (simp add: f)
  from i 1 4 5 show ?thesis by blast
qed

lemma set_all_goals_frame:
  assumes "set_all_goals h m = Inr (m', h')"
  shows "m' = m" "length h' = length h" "\<And>a. a \<noteq> rewards (base m) \<Longrightarrow> h' ! a = h ! a"
  using assms by (auto simp: set_all_goals_def Let_def sbind_eq_Inr)

text \<open>
  Claim C8. For an engine with positive dimensions whose reward matrix is in the store,
  \<^verbatim>\<open>copy\<close> succeeds; the copy's reward matrix is at another address and equal to the
  source's matrix at the time of the copy, which the copy leaves as it was. After that,
  \<^verbatim>\<open>set_goal\<close> and \<^verbatim>\<open>set_all_goals\<close> on the source leave the copy's matrix
  unchanged, and on the copy leave the source's matrix unchanged.
\<close>

theorem copy_independent:
  assumes "0 < rows m" "0 < cols m" "rewards (base m) < length h"
  shows "\<exists>cp h'. copy h m = Inr (cp, h')
     \<and> rewards (base cp) \<noteq> rewards (base m)
     \<and> rewards (base cp) < length h' \<and> rewards (base m) < length h'
     \<and> h' ! rewards (base cp) = h ! rewards (base m)
     \<and> h' ! rewards (base m) = h ! rewards (base m)
     \<and> (\<forall>g m2 h2. set_goal h' m g = Inr (m2, h2) \<longrightarrow>
           h2 ! rewards (base cp) = h' ! rewards (base cp))
     \<and> (\<forall>m2 h2. set_all_goals h' m = Inr (m2, h2) \<longrightarrow>
           h2 ! rewards (base cp) = h' ! rewards (base cp))
     \<and> (\<forall>g m2 h2. set_goal h' cp g = Inr (m2, h2) \<longrightarrow>
           h2 ! rewards (base m) = h' ! rewards (base m))
     \<and> (\<forall>m2 h2. set_all_goals h' cp = Inr (m2, h2) \<longrightarrow>
           h2 ! rewards (base m) = h' ! rewards (base m))"
proof -
  let ?r = "rewards (base m)"
  obtain cp0 h1 where
    i: "GridWorldMDP_init h (rows m) (cols m) [] None (Fin (- 1)) True False False = Inr (cp0, h1)"
    using init_succeeds [of "rows m" "cols m" "[]" None h "Fin (- 1)" True False False] assms(1,2)
    by auto
  then have f: "length h1 = Suc (length h)" "\<forall>a. a < length h \<longrightarrow> h1 ! a = h ! a"
    by (auto elim: init_constructed)
  let ?cp = "cp0\<lparr>base := (base cp0)\<lparr>rewards := length h1\<rparr>\<rparr>"
  let ?h' = "h1 @ [h1 ! ?r]"
  have c: "copy h m = Inr (?cp, ?h')" by (simp add: copy_def i Let_def)
  have rc: "rewards (base ?cp) = Suc (length h)" by (simp add: f)
  have 1: "rewards (base ?cp) \<noteq> ?r" using assms(3) rc by simp
  have 2: "rewards (base ?cp) < length ?h'" "?r < length ?h'" using assms(3) f by simp_all
  have 3: "?h' ! rewards (base ?cp) = h ! ?r" using f assms(3) by (simp add: nth_append)
  have 4: "?h' ! ?r = h ! ?r" using f assms(3) by (simp add: nth_append)
  have 5: "h2 ! rewards (base ?cp) = ?h' ! rewards (base ?cp)"
    if "set_goal ?h' m g = Inr (m2, h2)" for g m2 h2
    using set_goal_frame(3) [OF that, of "rewards (base ?cp)"] 1 by simp
  have 6: "h2 ! rewards (base ?cp) = ?h' ! rewards (base ?cp)"
    if "set_all_goals ?h' m = Inr (m2, h2)" for m2 h2
    using set_all_goals_frame(3) [OF that, of "rewards (base ?cp)"] 1 by simp
  have 7: "h2 ! ?r = ?h' ! ?r" if "set_goal ?h' ?cp g = Inr (m2, h2)" for g m2 h2
    using set_goal_frame(3) [OF that, of ?r] 1 by simp
  have 8: "h2 ! ?r = ?h' ! ?r" if "set_all_goals ?h' ?cp = Inr (m2, h2)" for m2 h2
    using set_all_goals_frame(3) [OF that, of ?r] 1 by simp
  show ?thesis
    apply (rule exI [of _ ?cp], rule exI [of _ ?h'])
    apply (intro conjI allI impI)
    using c 1 2 3 4 5 6 7 8 by blast+
qed


theorem copy_independent_witness:
  "\<exists>m h. GridWorldMDP_init [] 1 1 [] None (Fin (- 1)) True False False = Inr (m, h)
     \<and> (\<exists>cp h'. copy h m = Inr (cp, h')
           \<and> rewards (base cp) \<noteq> rewards (base m)
           \<and> h' ! rewards (base cp) = h ! rewards (base m)
           \<and> (\<exists>m2 h2. set_goal h' m (Some 0) = Inr (m2, h2)
                 \<and> getitem2 (h2 ! rewards (base m)) 0 ABSORB = Inr (Fin 0)
                 \<and> getitem2 (h2 ! rewards (base cp)) 0 ABSORB = Inr NegInf))"
proof -
  obtain m h where i: "GridWorldMDP_init [] 1 1 [] None (Fin (- 1)) True False False = Inr (m, h)"
    using init_succeeds [of 1 1 "[]" None "[]" "Fin (- 1)" True False False] by auto
  then have f: "rows m = 1" "cols m = 1" "rewards (base m) = 0" "length h = Suc 0"
    "nrows (h ! 0) = nat (1 * 1)" "ncols (h ! 0) = 9"
    by (auto elim: init_constructed)
  have hyp: "0 < rows m" "0 < cols m" "rewards (base m) < length h" by (simp_all add: f)
  have s: "(0::int) \<le> 0" "0 < rows m * cols m" by (simp_all add: f)
  have old: "getitem2 (h ! rewards (base m)) 0 ABSORB = Inr NegInf"
    using constructed_absorb_column [OF i _ s] by simp
  from copy_independent [OF hyp] obtain cp h' where
    c: "copy h m = Inr (cp, h')" "rewards (base cp) \<noteq> rewards (base m)"
      "h' ! rewards (base cp) = h ! rewards (base m)"
      "h' ! rewards (base m) = h ! rewards (base m)"
      "rewards (base m) < length h'"
    and fr: "\<forall>g m2 h2. set_goal h' m g = Inr (m2, h2) \<longrightarrow>
           h2 ! rewards (base cp) = h' ! rewards (base cp)"
    by blast
  have sh: "ncols (h' ! rewards (base m)) = 9" "(0::int) < int (nrows (h' ! rewards (base m)))"
    using c(4) f by simp_all
  note sg = set_goal_Some_ok [OF sh(1) s(1) sh(2)]
  from sg obtain m2 h2 where sg2: "set_goal h' m (Some 0) = Inr (m2, h2)" by blast
  have src: "getitem2 (h2 ! rewards (base m)) 0 ABSORB = Inr (Fin 0)"
    using sg sg2 c(5) sh by (auto simp: getitem2_ok ABSORB_def)
  have "h2 ! rewards (base cp) = h' ! rewards (base cp)" using fr sg2 by blast
  then have cpv: "getitem2 (h2 ! rewards (base cp)) 0 ABSORB = Inr NegInf"
    using c(3) old by simp
  from i c sg2 src cpv show ?thesis by blast
qed

end
